theory Spec2Isabelle
  imports Complex_Main
begin

section \<open>Numbers\<close>

text \<open>
  A JavaScript number is an IEEE-754 binary64 value. A finite double is modelled by the
  real number it denotes. The basic operations \<open>+\<close>, \<open>-\<close> and \<open>*\<close> return the exact
  result rounded to the nearest double, ties to the even significand (\<open>fl\<close>): 53
  significant bits, with the spacing \<open>2 powi (-1074)\<close> of the subnormal numbers below
  \<open>2 powi (-1022)\<close>. A decimal literal of the source denotes the double nearest to it
  (\<open>D\<close>). \<open>fl\<close> has no largest exponent; the operations of the eye aspect ratio,
  whose operands are arbitrary landmark coordinates, go through \<open>round_number\<close> below,
  which overflows to an Infinity.
\<close>

definition rne :: "real \<Rightarrow> int" where
  "rne x = (let f = \<lfloor>x\<rfloor>; d = x - of_int f in
     if d < 1 / 2 then f else if 1 / 2 < d then f + 1 else if even f then f else f + 1)"

definition binade :: "real \<Rightarrow> int" where
  "binade x = max \<lfloor>log 2 \<bar>x\<bar>\<rfloor> (- 1022)"

definition fl :: "real \<Rightarrow> real" where
  "fl x = (if x = 0 then 0
           else of_int (rne (x / 2 powi (binade x - 52))) * 2 powi (binade x - 52))"

definition D :: "real \<Rightarrow> real" where
  "D q = fl q"

definition fadd :: "real \<Rightarrow> real \<Rightarrow> real" where
  "fadd a b = fl (a + b)"

definition fsub :: "real \<Rightarrow> real \<Rightarrow> real" where
  "fsub a b = fl (a - b)"

definition fmul :: "real \<Rightarrow> real \<Rightarrow> real" where
  "fmul a b = fl (a * b)"

text \<open>
  A number that may have left the finite range: a finite double, an Infinity or NaN.
  \<open>round_number\<close> rounds an exact result and overflows to an Infinity from \<open>2 ^ 1024\<close>
  on, where a double has no finite neighbour left. The operations below are those of
  \<open>distance\<close> and \<open>calculateEAR\<close>: the difference of two finite numbers,
  \<open>Math.pow(x, 2)\<close>, the sum, \<open>Math.sqrt\<close> and the quotient, each with the IEEE-754
  results for Infinity, NaN and a zero divisor. \<open>Math.pow(x, 2)\<close> and \<open>Math.sqrt\<close> are
  taken correctly rounded. There is one zero, read as \<open>+0\<close>: the divisor of the eye aspect
  ratio is a square root of a sum of squares, which is never \<open>-0\<close>.
\<close>

datatype number = Fin real | PosInf | NegInf | NaN

definition round_number :: "real \<Rightarrow> number" where
  "round_number x =
     (if 2 ^ 1024 \<le> fl x then PosInf
      else if fl x \<le> - (2 ^ 1024) then NegInf
      else Fin (fl x))"

definition sub_number :: "real \<Rightarrow> real \<Rightarrow> number" where
  "sub_number a b = round_number (a - b)"

fun pow2_number :: "number \<Rightarrow> number" where
  "pow2_number (Fin a) = round_number (a * a)"
| "pow2_number PosInf = PosInf"
| "pow2_number NegInf = PosInf"
| "pow2_number NaN = NaN"

fun add_number :: "number \<Rightarrow> number \<Rightarrow> number" where
  "add_number (Fin a) (Fin b) = round_number (a + b)"
| "add_number NaN y = NaN"
| "add_number x NaN = NaN"
| "add_number PosInf NegInf = NaN"
| "add_number NegInf PosInf = NaN"
| "add_number PosInf y = PosInf"
| "add_number x PosInf = PosInf"
| "add_number NegInf y = NegInf"
| "add_number x NegInf = NegInf"

fun sqrt_number :: "number \<Rightarrow> number" where
  "sqrt_number (Fin a) = (if a < 0 then NaN else Fin (fl (sqrt a)))"
| "sqrt_number PosInf = PosInf"
| "sqrt_number NegInf = NaN"
| "sqrt_number NaN = NaN"

fun divide_number :: "number \<Rightarrow> number \<Rightarrow> number" where
  "divide_number (Fin a) (Fin b) =
     (if b = 0 then (if a = 0 then NaN else if 0 < a then PosInf else NegInf)
      else round_number (a / b))"
| "divide_number NaN y = NaN"
| "divide_number x NaN = NaN"
| "divide_number (Fin a) y = Fin 0"
| "divide_number PosInf (Fin b) = (if 0 \<le> b then PosInf else NegInf)"
| "divide_number NegInf (Fin b) = (if 0 \<le> b then NegInf else PosInf)"
| "divide_number x y = NaN"

text \<open>\<open>a < t\<close> for a number \<open>a\<close> and a finite \<open>t\<close>: false for NaN.\<close>

fun less_number :: "number \<Rightarrow> real \<Rightarrow> bool" where
  "less_number (Fin a) t = (a < t)"
| "less_number NegInf t = True"
| "less_number PosInf t = False"
| "less_number NaN t = False"


section \<open>types.ts\<close>

text \<open>
  The fields \<open>x\<close> and \<open>y\<close> of a point are \<open>px\<close> and \<open>py\<close>; the optional \<open>z\<close> is
  never read. An \<open>ImageBitmap\<close> is modelled by its identity.
\<close>

record Point =
  px :: real
  py :: real

type_synonym ImageBitmap = nat

record Bounds =
  bx :: real
  by' :: real
  width :: real
  height :: real

record EyeData =
  image :: "ImageBitmap option"
  timestamp :: real
  bounds :: Bounds

record FrameHistory =
  leftEye :: EyeData
  rightEye :: EyeData

datatype ShapeType = Rect | Circle | Triangle | Slice

record GeometricFrame =
  shape_id :: real
  shape_type :: ShapeType
  delayFrames :: int
  shape_x :: real
  shape_y :: real
  shape_scale :: real
  rotation :: real
  rotationSpeed :: real
  color :: string
  glitchIntensity :: real

datatype GlitchMode = RgbSplit | PixelSort | Invert

record SceneParams =
  backgroundColor :: string
  shapes :: "GeometricFrame list"
  primaryColor :: string
  secondaryColor :: string
  glitchMode :: GlitchMode

section \<open>utils/math.ts\<close>

definition distance :: "Point \<Rightarrow> Point \<Rightarrow> number" where
  "distance p1 p2 =
     sqrt_number (add_number (pow2_number (sub_number (px p1) (px p2)))
                             (pow2_number (sub_number (py p1) (py p2))))"

definition lerp :: "real \<Rightarrow> real \<Rightarrow> real \<Rightarrow> real" where
  "lerp start stop t = fadd (fmul start (fsub 1 t)) (fmul stop t)"

text \<open>
  Reading an array out of range gives \<open>undefined\<close>, and reading a field of
  \<open>undefined\<close> throws a TypeError.
\<close>

datatype error = TypeError

fun elementAt :: "'a list \<Rightarrow> nat \<Rightarrow> 'a option" where
  "elementAt xs i = (if i < length xs then Some (xs ! i) else None)"

definition landmark :: "Point list \<Rightarrow> nat list \<Rightarrow> nat \<Rightarrow> Point option" where
  "landmark landmarks indices k =
     (case elementAt indices k of None \<Rightarrow> None | Some i \<Rightarrow> elementAt landmarks i)"

definition calculateEAR :: "Point list \<Rightarrow> nat list \<Rightarrow> error + number" where
  "calculateEAR landmarks indices =
     (case (landmark landmarks indices 2, landmark landmarks indices 3) of
        (Some pTop, Some pBottom) \<Rightarrow>
          (case (landmark landmarks indices 0, landmark landmarks indices 1) of
             (Some pLeft, Some pRight) \<Rightarrow>
               Inr (divide_number (distance pTop pBottom) (distance pLeft pRight))
           | _ \<Rightarrow> Inl TypeError)
      | _ \<Rightarrow> Inl TypeError)"

definition LEFT_EYE_INDICES :: "nat list" where
  "LEFT_EYE_INDICES = [33, 133, 159, 145]"

definition RIGHT_EYE_INDICES :: "nat list" where
  "RIGHT_EYE_INDICES = [362, 263, 386, 374]"

definition HEAD_NOSE_INDEX :: nat where
  "HEAD_NOSE_INDEX = 1"

text \<open>
  \<open>randomRange\<close> draws one number from \<open>Math.random()\<close>; the model takes the drawn
  value as its first argument.
\<close>

definition randomRange :: "real \<Rightarrow> real \<Rightarrow> real \<Rightarrow> real" where
  "randomRange r mn mx = fadd (fmul r (fsub mx mn)) mn"

section \<open>utils/sceneGenerator.ts\<close>

record Palette =
  primary :: string
  secondary :: string
  bg :: string

definition PALETTES :: "Palette list" where
  "PALETTES =
    [\<lparr>primary = ''#00FF41'', secondary = ''#003B00'', bg = ''#000000''\<rparr>,
     \<lparr>primary = ''#FF0055'', secondary = ''#550011'', bg = ''#050002''\<rparr>,
     \<lparr>primary = ''#00F0FF'', secondary = ''#003344'', bg = ''#000508''\<rparr>,
     \<lparr>primary = ''#FFFFFF'', secondary = ''#444444'', bg = ''#111111''\<rparr>,
     \<lparr>primary = ''#FFD700'', secondary = ''#332200'', bg = ''#0A0500''\<rparr>,
     \<lparr>primary = ''#9D00FF'', secondary = ''#220033'', bg = ''#05000A''\<rparr>,
     \<lparr>primary = ''#FF4400'', secondary = ''#330D00'', bg = ''#050100''\<rparr>,
     \<lparr>primary = ''#FF00FF'', secondary = ''#440044'', bg = ''#0A000A''\<rparr>]"

text \<open>
  The calls of \<open>Math.random()\<close> are the successive values \<open>rnd 0\<close>, \<open>rnd 1\<close>, ... of a
  stream; each function takes the position of the next draw and returns the position
  after its own draws. The properties of an object literal are evaluated in source
  order: \<open>id\<close>, \<open>delayFrames\<close>, \<open>x\<close>, \<open>y\<close>, \<open>scale\<close>, \<open>color\<close>, \<open>glitchIntensity\<close>; the
  focal shape draws no \<open>x\<close> and no \<open>y\<close>. The identifier is the drawn number itself: its
  rendering in base 36 is not modelled.
\<close>

type_synonym rng = "nat \<Rightarrow> real"

definition newShape :: "Palette \<Rightarrow> rng \<Rightarrow> nat \<Rightarrow> nat \<Rightarrow> GeometricFrame \<times> nat" where
  "newShape palette rnd i k =
     (let isMain = (i = 0) in
      if isMain then
        (\<lparr>shape_id = rnd k,
          shape_type = Rect,
          delayFrames = \<lfloor>randomRange (rnd (k + 1)) 2 45\<rfloor>,
          shape_x = D (5 / 10),
          shape_y = D (5 / 10),
          shape_scale = randomRange (rnd (k + 2)) (D (18 / 10)) (D (25 / 10)),
          rotation = 0,
          rotationSpeed = 0,
          color = (if rnd (k + 3) > D (3 / 10) then primary palette else ''#FFFFFF''),
          glitchIntensity = randomRange (rnd (k + 4)) (D (1 / 10)) (D (9 / 10))\<rparr>,
         k + 5)
      else
        (\<lparr>shape_id = rnd k,
          shape_type = Rect,
          delayFrames = \<lfloor>randomRange (rnd (k + 1)) 2 45\<rfloor>,
          shape_x = randomRange (rnd (k + 2)) (D (5 / 100)) (D (95 / 100)),
          shape_y = randomRange (rnd (k + 3)) (D (5 / 100)) (D (95 / 100)),
          shape_scale = randomRange (rnd (k + 4)) (D (3 / 10)) (D (14 / 10)),
          rotation = 0,
          rotationSpeed = 0,
          color = (if rnd (k + 5) > D (3 / 10) then primary palette else ''#FFFFFF''),
          glitchIntensity = randomRange (rnd (k + 6)) (D (1 / 10)) (D (9 / 10))\<rparr>,
         k + 7))"

function shapesLoop ::
  "Palette \<Rightarrow> rng \<Rightarrow> int \<Rightarrow> nat \<Rightarrow> nat \<Rightarrow> GeometricFrame list \<Rightarrow> GeometricFrame list \<times> nat"
where
  "shapesLoop palette rnd shapeCount i k acc =
     (if int i < shapeCount then
        (case newShape palette rnd i k of
           (shape, k') \<Rightarrow> shapesLoop palette rnd shapeCount (Suc i) k' (acc @ [shape]))
      else (acc, k))"
  by pat_completeness auto
termination
  by (relation "measure (\<lambda>(palette, rnd, shapeCount, i, k, acc). nat (shapeCount - int i))") auto

declare shapesLoop.simps [simp del]

definition generateNewScene :: "rng \<Rightarrow> SceneParams" where
  "generateNewScene rnd =
     (let palette = PALETTES ! nat \<lfloor>fmul (rnd 0) 8\<rfloor>;
          shapeCount = \<lfloor>randomRange (rnd 1) 20 35\<rfloor> in
      case shapesLoop palette rnd shapeCount 0 2 [] of
        (shapeList, k) \<Rightarrow>
          \<lparr>backgroundColor = bg palette,
           shapes = shapeList,
           primaryColor = primary palette,
           secondaryColor = secondary palette,
           glitchMode = (if rnd k > D (5 / 10) then RgbSplit else Invert)\<rparr>)"

section \<open>components/MirrorCanvas.tsx\<close>

definition BLINK_THRESHOLD :: real where
  "BLINK_THRESHOLD = D (18 / 100)"

definition MAX_HISTORY :: nat where
  "MAX_HISTORY = 60"

text \<open>
  The references of the component. \<open>closeLog\<close> records the bitmaps on which
  \<open>close()\<close> has been called, in order, and \<open>resetCount\<close> counts the calls of
  \<open>resetScene\<close>. The cooldown only takes the integer values 0 to 25, which doubles
  hold exactly. The frame counters of the status overlay are not modelled.
\<close>

record MirrorState =
  history :: "FrameHistory list"
  sceneParams :: SceneParams
  headPos :: Point
  targetHeadPos :: Point
  blinkCooldown :: int
  resetFlash :: real
  closeLog :: "ImageBitmap list"
  resetCount :: nat

definition resetScene :: "rng \<Rightarrow> MirrorState \<Rightarrow> MirrorState" where
  "resetScene rnd s =
     s\<lparr>sceneParams := generateNewScene rnd, resetFlash := 1, resetCount := Suc (resetCount s)\<rparr>"

subsection \<open>extractEye\<close>

text \<open>
  The running minimum and maximum of \<open>indices.forEach\<close>, then the padding, the clamp
  and the pixel rectangle handed to \<open>createImageBitmap\<close>. \<open>Throws\<close> is the TypeError of
  an index with no landmark, \<open>NoCrop\<close> the result \<open>null\<close>.
\<close>

record Box =
  minX :: real
  minY :: real
  maxX :: real
  maxY :: real

definition growBox :: "Box \<Rightarrow> Point \<Rightarrow> Box" where
  "growBox b p =
     (let b1 = (if px p < minX b then b\<lparr>minX := px p\<rparr> else b);
          b2 = (if px p > maxX b1 then b1\<lparr>maxX := px p\<rparr> else b1);
          b3 = (if py p < minY b2 then b2\<lparr>minY := py p\<rparr> else b2)
      in (if py p > maxY b3 then b3\<lparr>maxY := py p\<rparr> else b3))"

fun boxLoop :: "Point list \<Rightarrow> nat list \<Rightarrow> Box \<Rightarrow> Box option" where
  "boxLoop landmarks [] b = Some b"
| "boxLoop landmarks (idx # indices) b =
     (case elementAt landmarks idx of
        None \<Rightarrow> None
      | Some p \<Rightarrow> boxLoop landmarks indices (growBox b p))"

datatype extraction = Throws | NoCrop | Crop real real real real

definition padBox :: "Box \<Rightarrow> Box" where
  "padBox b =
     (let paddingX = fmul (fsub (maxX b) (minX b)) (D (6 / 10));
          paddingY = fmul (fsub (maxY b) (minY b)) 1
      in \<lparr>minX = max 0 (fsub (minX b) paddingX),
          minY = max 0 (fsub (minY b) paddingY),
          maxX = min 1 (fadd (maxX b) paddingX),
          maxY = min 1 (fadd (maxY b) paddingY)\<rparr>)"

definition extractEye :: "Point list \<Rightarrow> nat list \<Rightarrow> real \<Rightarrow> real \<Rightarrow> extraction" where
  "extractEye landmarks indices w h =
     (case boxLoop landmarks indices \<lparr>minX = 1, minY = 1, maxX = 0, maxY = 0\<rparr> of
        None \<Rightarrow> Throws
      | Some b0 \<Rightarrow>
          (let b = padBox b0;
               sx = fmul (minX b) w;
               sy = fmul (minY b) h;
               sw = fmul (fsub (maxX b) (minX b)) w;
               sh = fmul (fsub (maxY b) (minY b)) h
           in if sw \<le> 0 \<or> sh \<le> 0 then NoCrop else Crop sx sy sw sh))"

subsection \<open>onResults\<close>

text \<open>
  One invocation of the tracking callback. \<open>ready\<close> says that the component is mounted
  and has its canvas, video and drawing context; \<open>faces\<close> is
  \<open>results.multiFaceLandmarks\<close> (empty when it is absent). \<open>leftBitmap\<close> and
  \<open>rightBitmap\<close> are what \<open>createImageBitmap\<close> resolves to when it is called for that
  eye (\<open>None\<close>: the promise rejects), and \<open>sceneRandom\<close> is the stream of
  \<open>Math.random()\<close> read by a scene reset in this tick.
\<close>

record TickInput =
  ready :: bool
  faces :: "Point list list"
  now :: real
  videoWidth :: real
  videoHeight :: real
  leftBitmap :: "ImageBitmap option"
  rightBitmap :: "ImageBitmap option"
  sceneRandom :: rng

definition closes :: "ImageBitmap option \<Rightarrow> ImageBitmap list" where
  "closes img = (case img of None \<Rightarrow> [] | Some b \<Rightarrow> [b])"

text \<open>Lines 250 to 255: \<open>unshift\<close>, then one \<open>pop\<close> and two \<open>close\<close> calls above the limit.\<close>

definition pushFrame :: "FrameHistory \<Rightarrow> MirrorState \<Rightarrow> MirrorState" where
  "pushFrame newFrame s =
     (let h = newFrame # history s in
      if length h > MAX_HISTORY then
        (let old = last h in
         s\<lparr>history := butlast h,
           closeLog := closeLog s @ closes (image (leftEye old)) @ closes (image (rightEye old))\<rparr>)
      else s\<lparr>history := h\<rparr>)"

text \<open>
  The outcome of one element of \<open>Promise.all\<close>: \<open>null\<close> passes through, a crop
  resolves to the bitmap or rejects.
\<close>

datatype settled = Rejected | Resolved "ImageBitmap option"

definition settle :: "extraction \<Rightarrow> ImageBitmap option \<Rightarrow> settled" where
  "settle e created =
     (case e of
        NoCrop \<Rightarrow> Resolved None
      | Crop sx sy sw sh \<Rightarrow> (case created of None \<Rightarrow> Rejected | Some b \<Rightarrow> Resolved (Some b))
      | Throws \<Rightarrow> Rejected)"

text \<open>Lines 238 to 259: the \<open>try\<close> block; a throw or a rejection skips the push.\<close>

definition captureEyes :: "Point list \<Rightarrow> TickInput \<Rightarrow> MirrorState \<Rightarrow> MirrorState" where
  "captureEyes landmarks inp s =
     (case extractEye landmarks LEFT_EYE_INDICES (videoWidth inp) (videoHeight inp) of
        Throws \<Rightarrow> s
      | l \<Rightarrow>
        (case extractEye landmarks RIGHT_EYE_INDICES (videoWidth inp) (videoHeight inp) of
           Throws \<Rightarrow> s
         | r \<Rightarrow>
           (case (settle l (leftBitmap inp), settle r (rightBitmap inp)) of
              (Resolved (Some leftEyeBmp), Resolved (Some rightEyeBmp)) \<Rightarrow>
                pushFrame
                  \<lparr>leftEye = \<lparr>image = Some leftEyeBmp, timestamp = now inp,
                               bounds = \<lparr>bx = 0, by' = 0, width = 0, height = 0\<rparr>\<rparr>,
                    rightEye = \<lparr>image = Some rightEyeBmp, timestamp = now inp,
                                bounds = \<lparr>bx = 0, by' = 0, width = 0, height = 0\<rparr>\<rparr>\<rparr> s
            | _ \<Rightarrow> s)))"

text \<open>Lines 451 to 484 of \<open>renderScene\<close>: the only state the compositor changes.\<close>

definition decayFlash :: "real \<Rightarrow> real" where
  "decayFlash f = (if f > D (1 / 1000) then fmul f (D (85 / 100)) else 0)"

definition renderScene :: "MirrorState \<Rightarrow> MirrorState" where
  "renderScene s = s\<lparr>resetFlash := decayFlash (resetFlash s)\<rparr>"

text \<open>Lines 264 to 268: cooldown, smoothing, rendering.\<close>

definition finishTick :: "MirrorState \<Rightarrow> MirrorState" where
  "finishTick s =
     (let s1 = (if blinkCooldown s > 0 then s\<lparr>blinkCooldown := blinkCooldown s - 1\<rparr> else s);
          s2 = s1\<lparr>headPos := \<lparr>px = lerp (px (headPos s1)) (px (targetHeadPos s1)) (D (8 / 100)),
                                py = lerp (py (headPos s1)) (py (targetHeadPos s1)) (D (8 / 100))\<rparr>\<rparr>
      in renderScene s2)"

text \<open>Lines 231 to 236: the blink trigger.\<close>

definition blink :: "number \<Rightarrow> number \<Rightarrow> rng \<Rightarrow> MirrorState \<Rightarrow> MirrorState" where
  "blink leftEAR rightEAR rnd s =
     (if less_number leftEAR BLINK_THRESHOLD \<and> less_number rightEAR BLINK_THRESHOLD then
        (if blinkCooldown s \<le> 0 then resetScene rnd (s\<lparr>blinkCooldown := 25\<rparr>) else s)
      else s)"

text \<open>
  A callback either runs to its end or throws a TypeError on a missing landmark; the
  state it leaves behind is kept in both cases.
\<close>

datatype outcome = Completed MirrorState | Threw MirrorState

fun stateOf :: "outcome \<Rightarrow> MirrorState" where
  "stateOf (Completed s) = s"
| "stateOf (Threw s) = s"

definition onResults :: "MirrorState \<Rightarrow> TickInput \<Rightarrow> outcome" where
  "onResults s inp =
     (if \<not> ready inp then Completed s
      else
        (case faces inp of
           [] \<Rightarrow> Completed (finishTick (s\<lparr>targetHeadPos := \<lparr>px = D (5 / 10), py = D (5 / 10)\<rparr>\<rparr>))
         | landmarks # others \<Rightarrow>
             (case elementAt landmarks HEAD_NOSE_INDEX of
                None \<Rightarrow> Threw s
              | Some nose \<Rightarrow>
                  (let s1 = s\<lparr>targetHeadPos := \<lparr>px = fsub 1 (px nose), py = py nose\<rparr>\<rparr> in
                   case calculateEAR landmarks LEFT_EYE_INDICES of
                     Inl e \<Rightarrow> Threw s1
                   | Inr leftEAR \<Rightarrow>
                       (case calculateEAR landmarks RIGHT_EYE_INDICES of
                          Inl e \<Rightarrow> Threw s1
                        | Inr rightEAR \<Rightarrow>
                            Completed
                              (finishTick
                                 (captureEyes landmarks inp
                                    (blink leftEAR rightEAR (sceneRandom inp) s1))))))))"

text \<open>The callbacks run one after the other, each on the state the previous one left.\<close>

fun run :: "MirrorState \<Rightarrow> TickInput list \<Rightarrow> MirrorState" where
  "run s [] = s"
| "run s (inp # inps) = run (stateOf (onResults s inp)) inps"

definition initialState :: "rng \<Rightarrow> MirrorState" where
  "initialState rnd =
     \<lparr>history = [],
      sceneParams = generateNewScene rnd,
      headPos = \<lparr>px = D (5 / 10), py = D (5 / 10)\<rparr>,
      targetHeadPos = \<lparr>px = D (5 / 10), py = D (5 / 10)\<rparr>,
      blinkCooldown = 0,
      resetFlash = 0,
      closeLog = [],
      resetCount = 0\<rparr>"

subsection \<open>renderScene: the history lookup\<close>

text \<open>
  Lines 315 to 319 (and 360 to 361): the index is clamped to the newest-first history;
  a negative index or a missing entry skips the shape.
\<close>

definition historyLookup :: "FrameHistory list \<Rightarrow> int \<Rightarrow> FrameHistory option" where
  "historyLookup h delay =
     (let historyIndex = min delay (int (length h) - 1) in
      if historyIndex < 0 then None else elementAt h (nat historyIndex))"

definition placedShapes :: "SceneParams \<Rightarrow> FrameHistory list \<Rightarrow> GeometricFrame list" where
  "placedShapes params h =
     filter (\<lambda>shape. historyLookup h (delayFrames shape) \<noteq> None) (shapes params)"

section \<open>Invariants and example inputs\<close>

text \<open>
  Every frame that \<open>onResults\<close> pushes holds two bitmaps, and the history stays within
  its limit.
\<close>

definition framed :: "FrameHistory \<Rightarrow> bool" where
  "framed f = (image (leftEye f) \<noteq> None \<and> image (rightEye f) \<noteq> None)"

definition bounded :: "MirrorState \<Rightarrow> bool" where
  "bounded s = (length (history s) \<le> MAX_HISTORY \<and> (\<forall>f \<in> set (history s). framed f))"

text \<open>
  The bitmaps the history holds, and the bitmaps \<open>createImageBitmap\<close> hands to a tick.
\<close>

definition held :: "MirrorState \<Rightarrow> ImageBitmap set" where
  "held s = (\<Union>f \<in> set (history s). set (closes (image (leftEye f))) \<union> set (closes (image (rightEye f))))"

definition supplied :: "TickInput \<Rightarrow> ImageBitmap set" where
  "supplied inp = set (closes (leftBitmap inp)) \<union> set (closes (rightBitmap inp))"

definition exampleFrame :: "ImageBitmap \<Rightarrow> ImageBitmap \<Rightarrow> FrameHistory" where
  "exampleFrame l r =
     \<lparr>leftEye = \<lparr>image = Some l, timestamp = 0, bounds = \<lparr>bx = 0, by' = 0, width = 0, height = 0\<rparr>\<rparr>,
      rightEye = \<lparr>image = Some r, timestamp = 0, bounds = \<lparr>bx = 0, by' = 0, width = 0, height = 0\<rparr>\<rparr>\<rparr>"

text \<open>A face whose left eye spans the whole frame and whose right eye is a single point.\<close>

definition oneEyeFace :: "Point list" where
  "oneEyeFace = (replicate 387 \<lparr>px = 1 / 2, py = 1 / 2\<rparr>)
     [33 := \<lparr>px = 0, py = 0\<rparr>, 133 := \<lparr>px = 1, py = 1\<rparr>]"

definition oneEyeInput :: TickInput where
  "oneEyeInput =
     \<lparr>ready = True, faces = [oneEyeFace], now = 0, videoWidth = 640, videoHeight = 480,
      leftBitmap = Some 7, rightBitmap = None, sceneRandom = (\<lambda>n. 0)\<rparr>"

text \<open>
  A tick in which a face is tracked, its landmarks are all there, and both eye aspect
  ratios are below the blink threshold.
\<close>

definition blinking :: "TickInput \<Rightarrow> bool" where
  "blinking inp =
     (ready inp \<and>
      (\<exists>landmarks others nose leftEAR rightEAR.
         faces inp = landmarks # others \<and>
         elementAt landmarks HEAD_NOSE_INDEX = Some nose \<and>
         calculateEAR landmarks LEFT_EYE_INDICES = Inr leftEAR \<and>
         calculateEAR landmarks RIGHT_EYE_INDICES = Inr rightEAR \<and>
         less_number leftEAR BLINK_THRESHOLD \<and> less_number rightEAR BLINK_THRESHOLD))"

text \<open>A face with both eyes nearly closed: each eye aspect ratio is one tenth.\<close>

definition blinkFace :: "Point list" where
  "blinkFace = (replicate 387 \<lparr>px = 1 / 2, py = 1 / 2\<rparr>)
     [33 := \<lparr>px = 1 / 8, py = 1 / 2\<rparr>, 133 := \<lparr>px = 3 / 4, py = 1 / 2\<rparr>,
      145 := \<lparr>px = 1 / 2, py = 9 / 16\<rparr>,
      362 := \<lparr>px = 1 / 8, py = 1 / 2\<rparr>, 263 := \<lparr>px = 3 / 4, py = 1 / 2\<rparr>,
      374 := \<lparr>px = 1 / 2, py = 9 / 16\<rparr>]"

definition blinkInput :: TickInput where
  "blinkInput =
     \<lparr>ready = True, faces = [blinkFace], now = 0, videoWidth = 640, videoHeight = 480,
      leftBitmap = Some 1, rightBitmap = Some 2, sceneRandom = (\<lambda>n. 0)\<rparr>"

text \<open>
  A landmark inside the frame has normalized coordinates in the unit square; the
  bounding box of the indexed landmarks.
\<close>

definition inFrame :: "Point \<Rightarrow> bool" where
  "inFrame p = (0 \<le> px p \<and> px p \<le> 1 \<and> 0 \<le> py p \<and> py p \<le> 1)"

definition boundingBox :: "Point list \<Rightarrow> nat list \<Rightarrow> Box" where
  "boundingBox landmarks indices =
     \<lparr>minX = Min ((\<lambda>i. px (landmarks ! i)) ` set indices),
      minY = Min ((\<lambda>i. py (landmarks ! i)) ` set indices),
      maxX = Max ((\<lambda>i. px (landmarks ! i)) ` set indices),
      maxY = Max ((\<lambda>i. py (landmarks ! i)) ` set indices)\<rparr>"

text \<open>
  The crop as the specification words it, from the bounding box: padded by 60 percent
  of the width on x and by the height on y, clamped to the unit square, scaled to
  pixels, and \<open>null\<close> when the pixel width or height is not positive.
\<close>

definition boundingBoxCrop :: "Point list \<Rightarrow> nat list \<Rightarrow> real \<Rightarrow> real \<Rightarrow> extraction" where
  "boundingBoxCrop landmarks indices w h =
     (let b0 = boundingBox landmarks indices;
          paddingX = fmul (fsub (maxX b0) (minX b0)) (D (6 / 10));
          paddingY = fsub (maxY b0) (minY b0);
          x0 = max 0 (fsub (minX b0) paddingX);
          x1 = min 1 (fadd (maxX b0) paddingX);
          y0 = max 0 (fsub (minY b0) paddingY);
          y1 = min 1 (fadd (maxY b0) paddingY);
          sw = fmul (fsub x1 x0) w;
          sh = fmul (fsub y1 y0) h
      in if sw \<le> 0 \<or> sh \<le> 0 then NoCrop else Crop (fmul x0 w) (fmul y0 h) sw sh)"

text \<open>A face whose left eye lies below the frame: its landmarks have \<open>y\<close> from 1.5 to 2.\<close>

definition lowFace :: "Point list" where
  "lowFace = (replicate 387 \<lparr>px = 1 / 2, py = 3 / 2\<rparr>)
     [33 := \<lparr>px = 0, py = 3 / 2\<rparr>, 133 := \<lparr>px = 1, py = 2\<rparr>]"


subsection \<open>The draws of the generator\<close>

text \<open>
  A draw of \<open>Math.random()\<close>: a double that is at least 0 and less than 1. The three
  predicates are the ranges of the fields that \<open>generateNewScene\<close> draws: the focal
  shape of index 0, the other shapes, and the fields every shape has.
\<close>

definition draw :: "real \<Rightarrow> bool" where
  "draw r = (0 \<le> r \<and> r < 1 \<and> fl r = r)"

definition focalShape :: "GeometricFrame \<Rightarrow> bool" where
  "focalShape s =
     (shape_x s = 1 / 2 \<and> shape_y s = 1 / 2 \<and>
      D (18 / 10) \<le> shape_scale s \<and> shape_scale s \<le> D (25 / 10))"

definition fragmentShape :: "GeometricFrame \<Rightarrow> bool" where
  "fragmentShape s =
     (D (5 / 100) \<le> shape_x s \<and> shape_x s < D (95 / 100) \<and>
      D (5 / 100) \<le> shape_y s \<and> shape_y s < D (95 / 100) \<and>
      D (3 / 10) \<le> shape_scale s \<and> shape_scale s < D (14 / 10))"

definition delayedShape :: "GeometricFrame \<Rightarrow> bool" where
  "delayedShape s =
     (2 \<le> delayFrames s \<and> delayFrames s < 45 \<and>
      D (1 / 10) \<le> glitchIntensity s \<and> glitchIntensity s < D (9 / 10))"

definition drawsAt :: "nat \<Rightarrow> real \<Rightarrow> nat \<Rightarrow> real \<Rightarrow> rng" where
  "drawsAt i a j b = (\<lambda>n. if n = i then a else if n = j then b else 0)"

text \<open>
  A face both of whose eyes span the whole frame, and the tick that tracks it and
  creates the bitmaps \<open>2 * n\<close> and \<open>2 * n + 1\<close>.
\<close>

definition wideFace :: "Point list" where
  "wideFace = (replicate 387 \<lparr>px = 1 / 2, py = 1 / 2\<rparr>)
     [33 := \<lparr>px = 0, py = 0\<rparr>, 133 := \<lparr>px = 1, py = 1\<rparr>,
      362 := \<lparr>px = 0, py = 0\<rparr>, 263 := \<lparr>px = 1, py = 1\<rparr>]"

definition captureInput :: "nat \<Rightarrow> TickInput" where
  "captureInput n =
     \<lparr>ready = True, faces = [wideFace], now = 0, videoWidth = 640, videoHeight = 480,
      leftBitmap = Some (2 * n), rightBitmap = Some (2 * n + 1), sceneRandom = (\<lambda>n. 0)\<rparr>"

section \<open>Rounding to an integer\<close>

lemma rne_of_int: "rne (of_int k) = k"
  by (simp add: rne_def)

lemma rne_0: "rne 0 = 0"
  using rne_of_int [of 0] by simp

lemma rne_bounds: "\<lfloor>x\<rfloor> \<le> rne x \<and> rne x \<le> \<lfloor>x\<rfloor> + 1"
  by (simp add: rne_def Let_def)

lemma rne_err: "\<bar>of_int (rne x) - x\<bar> \<le> 1 / 2"
proof -
  have "of_int \<lfloor>x\<rfloor> \<le> x" "x < of_int \<lfloor>x\<rfloor> + 1" by linarith+
  then show ?thesis by (auto simp add: rne_def Let_def)
qed

lemma rne_mono: "x \<le> y \<Longrightarrow> rne x \<le> rne y"
proof -
  assume xy: "x \<le> y"
  then have fl: "\<lfloor>x\<rfloor> \<le> \<lfloor>y\<rfloor>" by (rule floor_mono)
  show ?thesis
  proof (cases "\<lfloor>x\<rfloor> = \<lfloor>y\<rfloor>")
    case True
    with xy have "x - of_int \<lfloor>x\<rfloor> \<le> y - of_int \<lfloor>y\<rfloor>" by simp
    with True show ?thesis by (auto simp add: rne_def Let_def)
  next
    case False
    with fl have "\<lfloor>x\<rfloor> + 1 \<le> \<lfloor>y\<rfloor>" by simp
    with rne_bounds [of x] rne_bounds [of y] show ?thesis by linarith
  qed
qed

section \<open>Binades\<close>

lemma powi_pos: "0 < (2::real) powi k"
  by simp

lemma binade_ge: "- 1022 \<le> binade x"
  by (simp add: binade_def)

lemma two_powr: "(2::real) powr real_of_int k = 2 powi k"
  by (rule powr_real_of_int') simp_all

lemma floor_log2_iff:
  "0 < x \<Longrightarrow> (\<lfloor>log 2 x\<rfloor> = k) = (2 powi k \<le> x \<and> x < 2 powi (k + 1))"
  using floor_log_eq_powr_iff [of x 2 k, unfolded two_powr] by simp

lemma binade_upper: "x \<noteq> 0 \<Longrightarrow> \<bar>x\<bar> < 2 powi (binade x + 1)"
proof -
  assume "x \<noteq> 0"
  then have pos: "0 < \<bar>x\<bar>" by simp
  define l where "l = \<lfloor>log 2 \<bar>x\<bar>\<rfloor>"
  from floor_log2_iff [OF pos, of l] l_def
  have "\<bar>x\<bar> < 2 powi (l + 1)" by simp
  moreover have "(2::real) powi (l + 1) \<le> 2 powi (binade x + 1)"
    by (rule power_int_increasing) (simp_all add: binade_def l_def)
  ultimately show ?thesis by linarith
qed

lemma binade_lower: "x \<noteq> 0 \<Longrightarrow> - 1022 < binade x \<Longrightarrow> 2 powi binade x \<le> \<bar>x\<bar>"
proof -
  assume "x \<noteq> 0" and b: "- 1022 < binade x"
  then have pos: "0 < \<bar>x\<bar>" by simp
  define l where "l = \<lfloor>log 2 \<bar>x\<bar>\<rfloor>"
  from b have "binade x = l" by (simp add: binade_def l_def max_def split: if_splits)
  moreover from floor_log2_iff [OF pos, of l] l_def
  have "2 powi l \<le> \<bar>x\<bar>" by simp
  ultimately show ?thesis by simp
qed

lemma binade_eq:
  "2 powi e \<le> \<bar>x\<bar> \<Longrightarrow> \<bar>x\<bar> < 2 powi (e + 1) \<Longrightarrow> - 1022 \<le> e \<Longrightarrow> binade x = e"
proof -
  assume lo: "2 powi e \<le> \<bar>x\<bar>" and hi: "\<bar>x\<bar> < 2 powi (e + 1)" and e: "- 1022 \<le> e"
  from lo have pos: "0 < \<bar>x\<bar>" using powi_pos [of e] by linarith
  from lo hi have "\<lfloor>log 2 \<bar>x\<bar>\<rfloor> = e"
    using floor_log2_iff [OF pos, of e] by simp
  with e show ?thesis by (simp add: binade_def)
qed

lemma binade_mono: "x \<noteq> 0 \<Longrightarrow> \<bar>x\<bar> \<le> \<bar>y\<bar> \<Longrightarrow> binade x \<le> binade y"
proof -
  assume "x \<noteq> 0" "\<bar>x\<bar> \<le> \<bar>y\<bar>"
  then have "log 2 \<bar>x\<bar> \<le> log 2 \<bar>y\<bar>" by simp
  then have "\<lfloor>log 2 \<bar>x\<bar>\<rfloor> \<le> \<lfloor>log 2 \<bar>y\<bar>\<rfloor>" by (rule floor_mono)
  then show ?thesis by (simp add: binade_def)
qed

section \<open>Rounding to a double\<close>

lemma fl_0: "fl 0 = 0"
  by (simp add: fl_def)

lemma fl_eval:
  "2 powi e \<le> \<bar>x\<bar> \<Longrightarrow> \<bar>x\<bar> < 2 powi (e + 1) \<Longrightarrow> - 1022 \<le> e \<Longrightarrow>
     fl x = of_int (rne (x / 2 powi (e - 52))) * 2 powi (e - 52)"
proof -
  assume lo: "2 powi e \<le> \<bar>x\<bar>" and hi: "\<bar>x\<bar> < 2 powi (e + 1)" and e: "- 1022 \<le> e"
  from lo have "0 < \<bar>x\<bar>" using powi_pos [of e] by linarith
  then have "x \<noteq> 0" by simp
  with binade_eq [OF lo hi e] show ?thesis by (simp add: fl_def)
qed

lemma fl_nonneg: "0 \<le> x \<Longrightarrow> 0 \<le> fl x"
proof -
  assume "0 \<le> x"
  then have "0 \<le> x / 2 powi (binade x - 52)" by simp
  from rne_mono [OF this] have "0 \<le> rne (x / 2 powi (binade x - 52))" by (simp add: rne_0)
  then show ?thesis by (simp add: fl_def)
qed

lemma fl_nonpos: "x \<le> 0 \<Longrightarrow> fl x \<le> 0"
proof -
  assume "x \<le> 0"
  then have "x / 2 powi (binade x - 52) \<le> 0" by (simp add: divide_le_0_iff)
  from rne_mono [OF this] have "rne (x / 2 powi (binade x - 52)) \<le> 0" by (simp add: rne_0)
  then show ?thesis by (simp add: fl_def mult_le_0_iff)
qed

lemma fl_err: "\<bar>x\<bar> < 2 powi (k + 1) \<Longrightarrow> - 1022 \<le> k \<Longrightarrow> \<bar>fl x - x\<bar> \<le> 2 powi (k - 53)"
proof (cases "x = 0")
  case True
  then show ?thesis by (simp add: fl_0)
next
  case False
  assume hi: "\<bar>x\<bar> < 2 powi (k + 1)" and k: "- 1022 \<le> k"
  define u :: real where "u = 2 powi (binade x - 52)"
  have upos: "0 < u" by (simp add: u_def)
  have bk: "binade x \<le> k"
  proof (rule ccontr)
    assume "\<not> binade x \<le> k"
    then have b: "k + 1 \<le> binade x" by simp
    with k have "- 1022 < binade x" by simp
    from binade_lower [OF False this] have "2 powi binade x \<le> \<bar>x\<bar>" .
    moreover from b have "(2::real) powi (k + 1) \<le> 2 powi binade x"
      by (intro power_int_increasing) simp_all
    ultimately show False using hi by linarith
  qed
  have "fl x - x = (of_int (rne (x / u)) - x / u) * u"
    using False upos by (simp add: fl_def u_def algebra_simps)
  then have "\<bar>fl x - x\<bar> = \<bar>of_int (rne (x / u)) - x / u\<bar> * u"
    using upos by (simp add: abs_mult)
  also have "\<dots> \<le> (1 / 2) * u"
    using rne_err [of "x / u"] upos by (intro mult_right_mono) simp_all
  also have "\<dots> = 2 powi (binade x - 53)"
    by (simp add: u_def power_int_diff)
  also have "\<dots> \<le> 2 powi (k - 53)"
    using bk by (intro power_int_increasing) simp_all
  finally show ?thesis .
qed

lemma rne_pow: "rne (2 ^ n) = 2 ^ n"
  using rne_of_int [of "2 ^ n"] by simp

lemma rne_minus: "rne (- x) = - rne x"
proof (cases "x = of_int \<lfloor>x\<rfloor>")
  case True
  then obtain k where "x = of_int k" ..
  then have "rne x = k" "rne (- x) = - k"
    using rne_of_int [of k] rne_of_int [of "- k"] by simp_all
  then show ?thesis by simp
next
  case False
  then have f: "\<lfloor>- x\<rfloor> = - \<lfloor>x\<rfloor> - 1" by (simp add: floor_minus ceiling_altdef)
  have d: "- x - of_int \<lfloor>- x\<rfloor> = 1 - (x - of_int \<lfloor>x\<rfloor>)" by (simp add: f)
  show ?thesis
    unfolding rne_def Let_def d unfolding f by auto
qed

lemma binade_minus: "binade (- x) = binade x"
  by (simp add: binade_def)

lemma fl_minus: "fl (- x) = - fl x"
  by (simp add: fl_def binade_minus rne_minus)

lemma fl_pow2: "- 1022 \<le> e \<Longrightarrow> fl (2 powi e) = 2 powi e"
proof -
  assume e: "- 1022 \<le> e"
  have "(2::real) powi e < 2 powi (e + 1)" by (simp add: power_int_add)
  then have "fl (2 powi e) = of_int (rne (2 powi e / 2 powi (e - 52))) * 2 powi (e - 52)"
    using e by (intro fl_eval) simp_all
  also have "(2::real) powi e / 2 powi (e - 52) = 2 ^ 52"
    by (simp add: power_int_diff)
  also have "real_of_int (rne (2 ^ 52)) * 2 powi (e - 52) = 2 powi e"
    by (simp only: rne_pow) (simp add: power_int_diff)
  finally show ?thesis .
qed

lemma fl_1: "fl 1 = 1"
  using fl_pow2 [of 0] by simp

text \<open>A positive number and its rounding lie in the same closed binade.\<close>

lemma fl_le_pow2:
  assumes "0 < x" "x \<le> 2 powi e" "- 1022 \<le> e"
  shows "fl x \<le> 2 powi e"
proof -
  define u :: real where "u = 2 powi (binade x - 52)"
  have upos: "0 < u" by (simp add: u_def)
  show ?thesis
  proof (cases "binade x < e")
    case True
    from binade_upper [of x] assms(1) have "x < 2 powi (binade x + 1)" by simp
    then have "x / u < 2 ^ 53"
      using upos by (simp add: u_def power_int_diff power_int_add divide_simps)
    then have "rne (x / u) \<le> rne (2 ^ 53)" by (intro rne_mono) simp
    then have "rne (x / u) \<le> 2 ^ 53" by (simp only: rne_pow)
    then have "real_of_int (rne (x / u)) \<le> 2 ^ 53"
      by (metis of_int_le_iff of_int_numeral of_int_power)
    then have "real_of_int (rne (x / u)) * u \<le> 2 ^ 53 * u"
      using upos by (intro mult_right_mono) simp_all
    also have "\<dots> = 2 powi (binade x + 1)"
      by (simp add: u_def power_int_diff power_int_add)
    also have "\<dots> \<le> 2 powi e"
      using True by (intro power_int_increasing) simp_all
    finally show ?thesis using assms(1) by (simp add: fl_def u_def)
  next
    case False
    have "binade x \<le> e"
    proof (rule ccontr)
      assume "\<not> binade x \<le> e"
      then have b: "e + 1 \<le> binade x" by simp
      with assms(3) have "- 1022 < binade x" by simp
      from binade_lower [OF _ this] assms(1) have "2 powi binade x \<le> x" by simp
      moreover from b have "(2::real) powi e < 2 powi binade x"
        by (intro power_int_strict_increasing) simp_all
      ultimately show False using assms(2) by linarith
    qed
    with False have be: "binade x = e" by simp
    with assms(3) have "- 1022 < e \<or> e = - 1022" by auto
    have "x / u \<le> 2 ^ 52"
      using upos assms(2) by (simp add: u_def be power_int_diff divide_simps)
    then have "rne (x / u) \<le> rne (2 ^ 52)" by (intro rne_mono)
    then have "rne (x / u) \<le> 2 ^ 52" by (simp only: rne_pow)
    then have "real_of_int (rne (x / u)) \<le> 2 ^ 52"
      by (metis of_int_le_iff of_int_numeral of_int_power)
    then have "real_of_int (rne (x / u)) * u \<le> 2 ^ 52 * u"
      using upos by (intro mult_right_mono) simp_all
    also have "\<dots> = 2 powi e"
      by (simp add: u_def be power_int_diff)
    finally show ?thesis using assms(1) by (simp add: fl_def u_def)
  qed
qed

lemma fl_ge_pow2:
  assumes "2 powi e \<le> x" "- 1022 \<le> e"
  shows "2 powi e \<le> fl x"
proof -
  have xpos: "0 < x" using assms(1) powi_pos [of e] by linarith
  define u :: real where "u = 2 powi (binade x - 52)"
  have upos: "0 < u" by (simp add: u_def)
  have eb: "e \<le> binade x"
  proof -
    have "binade (2 powi e) = e"
      using assms(2) by (intro binade_eq) (simp_all add: power_int_add)
    moreover have "binade (2 powi e) \<le> binade x"
      using assms(1) xpos by (intro binade_mono) simp_all
    ultimately show ?thesis by simp
  qed
  have low: "2 powi binade x \<le> x"
  proof (cases "- 1022 < binade x")
    case True
    from binade_lower [OF _ True] xpos show ?thesis by simp
  next
    case False
    with binade_ge [of x] have "binade x = - 1022" by simp
    with eb assms(2) have "e = binade x" by simp
    with assms(1) show ?thesis by simp
  qed
  then have "2 ^ 52 \<le> x / u"
    using upos by (simp add: u_def power_int_diff divide_simps)
  then have "rne (2 ^ 52) \<le> rne (x / u)" by (intro rne_mono)
  then have "2 ^ 52 \<le> rne (x / u)" by (simp only: rne_pow)
  then have "2 ^ 52 \<le> real_of_int (rne (x / u))"
    by (metis of_int_le_iff of_int_numeral of_int_power)
  then have "2 ^ 52 * u \<le> real_of_int (rne (x / u)) * u"
    using upos by (intro mult_right_mono) simp_all
  moreover have "2 ^ 52 * u = 2 powi binade x"
    by (simp add: u_def power_int_diff)
  moreover have "(2::real) powi e \<le> 2 powi binade x"
    using eb by (intro power_int_increasing) simp_all
  moreover have "fl x = real_of_int (rne (x / u)) * u"
    using xpos by (simp add: fl_def u_def)
  ultimately show ?thesis by linarith
qed

lemma fl_mono_pos:
  assumes "0 < x" "x \<le> y"
  shows "fl x \<le> fl y"
proof -
  have ypos: "0 < y" using assms by linarith
  have b: "binade x \<le> binade y" using assms by (intro binade_mono) simp_all
  show ?thesis
  proof (cases "binade x = binade y")
    case True
    define u :: real where "u = 2 powi (binade y - 52)"
    have upos: "0 < u" by (simp add: u_def)
    have "x / u \<le> y / u" using assms(2) upos by (simp add: divide_right_mono)
    then have "rne (x / u) \<le> rne (y / u)" by (rule rne_mono)
    then have "real_of_int (rne (x / u)) * u \<le> real_of_int (rne (y / u)) * u"
      using upos by (intro mult_right_mono) simp_all
    then show ?thesis using assms(1) ypos True by (simp add: fl_def u_def)
  next
    case False
    with b have lt: "binade x + 1 \<le> binade y" by simp
    with binade_ge [of x] have y1022: "- 1022 < binade y" by simp
    from binade_upper [of x] assms(1) have "x \<le> 2 powi (binade x + 1)" by simp
    moreover have "(2::real) powi (binade x + 1) \<le> 2 powi binade y"
      using lt by (intro power_int_increasing) simp_all
    ultimately have "x \<le> 2 powi binade y" by linarith
    from fl_le_pow2 [OF assms(1) this] y1022 have "fl x \<le> 2 powi binade y" by simp
    moreover from binade_lower [OF _ y1022] ypos have "2 powi binade y \<le> y" by simp
    from fl_ge_pow2 [OF this] y1022 have "2 powi binade y \<le> fl y" by simp
    ultimately show ?thesis by linarith
  qed
qed

lemma fl_mono: "x \<le> y \<Longrightarrow> fl x \<le> fl y"
proof -
  assume xy: "x \<le> y"
  consider "0 < x" | "x \<le> 0" "0 \<le> y" | "y < 0" by linarith
  then show ?thesis
  proof cases
    case 1
    from 1 xy show ?thesis by (rule fl_mono_pos)
  next
    case 2
    with fl_nonpos [of x] fl_nonneg [of y] show ?thesis by linarith
  next
    case 3
    with xy have "0 < - y" "- y \<le> - x" by simp_all
    from fl_mono_pos [OF this] show ?thesis by (simp add: fl_minus)
  qed
qed

lemma binade_subnormal: "y \<noteq> 0 \<Longrightarrow> \<bar>y\<bar> < 2 powi (- 1022) \<Longrightarrow> binade y = - 1022"
proof (rule ccontr)
  assume ne: "y \<noteq> 0" and y: "\<bar>y\<bar> < 2 powi (- 1022)" and "binade y \<noteq> - 1022"
  with binade_ge [of y] have b: "- 1022 < binade y" by simp
  from binade_lower [OF ne b] have "2 powi binade y \<le> \<bar>y\<bar>" .
  moreover have "(2::real) powi (- 1022) \<le> 2 powi binade y"
    using b by (intro power_int_increasing) simp_all
  ultimately show False using y by linarith
qed

lemma fl_idem_pos:
  assumes "0 < x"
  shows "fl (fl x) = fl x"
proof -
  define e where "e = binade x"
  define u :: real where "u = 2 powi (e - 52)"
  define m where "m = rne (x / u)"
  have upos: "0 < u" by (simp add: u_def)
  have flx: "fl x = of_int m * u"
    using assms by (simp add: fl_def m_def u_def e_def)
  have e1022: "- 1022 \<le> e" by (simp add: e_def binade_ge)
  have "0 \<le> x / u" using assms upos by simp
  from rne_mono [OF this] have m0: "0 \<le> m" by (simp add: m_def rne_0)
  from binade_upper [of x] assms have "x < 2 powi (e + 1)" by (simp add: e_def)
  then have "x / u \<le> 2 ^ 53"
    using upos by (simp add: u_def power_int_diff power_int_add divide_simps)
  from rne_mono [OF this] have m53: "m \<le> 2 ^ 53" by (simp only: rne_pow m_def)
  consider "m = 0" | "m = 2 ^ 53" | "0 < m" "m < 2 ^ 52" | "2 ^ 52 \<le> m" "m < 2 ^ 53"
    using m0 m53 by linarith
  then show ?thesis
  proof cases
    case 1
    then show ?thesis by (simp add: flx fl_0)
  next
    case 2
    then have "fl x = 2 powi (e + 1)"
      by (simp add: flx u_def power_int_diff power_int_add)
    with fl_pow2 [of "e + 1"] e1022 show ?thesis by simp
  next
    case 3
    have esub: "e = - 1022"
    proof (rule ccontr)
      assume "e \<noteq> - 1022"
      with e1022 have "- 1022 < binade x" by (simp add: e_def)
      from binade_lower [OF _ this] assms have "2 powi e \<le> x" by (simp add: e_def)
      then have "2 ^ 52 \<le> x / u"
        using upos by (simp add: u_def power_int_diff divide_simps)
      from rne_mono [OF this] have "2 ^ 52 \<le> m" by (simp only: rne_pow m_def)
      with 3 show False by simp
    qed
    have "real_of_int m < 2 ^ 52"
      using 3(2) by (metis of_int_less_iff of_int_numeral of_int_power)
    then have "real_of_int m * u < 2 ^ 52 * u"
      using upos by (intro mult_strict_right_mono)
    also have "2 ^ 52 * u = 2 powi (- 1022)"
      by (simp add: u_def esub power_int_diff)
    finally have "real_of_int m * u < 2 powi (- 1022)" .
    moreover have ab: "\<bar>fl x\<bar> = real_of_int m * u"
      using m0 upos by (simp add: flx abs_mult)
    ultimately have small: "\<bar>fl x\<bar> < 2 powi (- 1022)" by linarith
    have ne: "fl x \<noteq> 0" using 3(1) upos by (simp add: flx)
    have "fl (fl x) = of_int (rne (fl x / u)) * u"
      using ne binade_subnormal [OF ne small] by (simp add: fl_def u_def esub)
    also have "fl x / u = of_int m" using upos by (simp add: flx)
    finally show ?thesis by (simp add: rne_of_int flx)
  next
    case 4
    have "(2::real) ^ 52 \<le> real_of_int m"
      using 4(1) by (metis of_int_le_iff of_int_numeral of_int_power)
    then have "2 ^ 52 * u \<le> real_of_int m * u"
      using upos by (intro mult_right_mono) simp_all
    moreover have "2 ^ 52 * u = 2 powi e"
      by (simp add: u_def power_int_diff)
    moreover have ab: "\<bar>fl x\<bar> = real_of_int m * u"
      using m0 upos by (simp add: flx abs_mult)
    ultimately have lo: "2 powi e \<le> \<bar>fl x\<bar>" by linarith
    have "real_of_int m < 2 ^ 53"
      using 4(2) by (metis of_int_less_iff of_int_numeral of_int_power)
    then have "real_of_int m * u < 2 ^ 53 * u"
      using upos by (intro mult_strict_right_mono)
    moreover have "2 ^ 53 * u = 2 powi (e + 1)"
      by (simp add: u_def power_int_diff power_int_add)
    ultimately have hi: "\<bar>fl x\<bar> < 2 powi (e + 1)" using ab by linarith
    have "fl (fl x) = of_int (rne (fl x / u)) * u"
      unfolding u_def by (rule fl_eval [OF lo hi e1022])
    also have "fl x / u = of_int m" using upos by (simp add: flx)
    finally show ?thesis by (simp add: rne_of_int flx)
  qed
qed

lemma fl_idem: "fl (fl x) = fl x"
proof -
  consider "0 < x" | "x = 0" | "0 < - x" by linarith
  then show ?thesis
  proof cases
    case 1
    then show ?thesis by (rule fl_idem_pos)
  next
    case 2
    then show ?thesis by (simp add: fl_0)
  next
    case 3
    from fl_idem_pos [OF this] show ?thesis by (simp add: fl_minus)
  qed
qed

lemma fl_value:
  assumes "2 powi e \<le> \<bar>x\<bar>" "\<bar>x\<bar> < 2 powi (e + 1)" "- 1022 \<le> e"
    and "rne (x / 2 powi (e - 52)) = m"
  shows "fl x = of_int m * 2 powi (e - 52)"
  using fl_eval [OF assms(1-3)] assms(4) by simp
section \<open>Numbers that overflow\<close>

lemma powi_1023_less: "(2::real) powi 1023 < 2 ^ 1024"
proof -
  have "(2::real) powi 1023 < 2 powi 1024" by (rule power_int_strict_increasing) simp_all
  then show ?thesis by simp
qed

lemma round_number_Fin:
  assumes "\<bar>x\<bar> \<le> 2 powi 1023"
  shows "round_number x = Fin (fl x)"
proof -
  have p: "fl (2 powi 1023) = 2 powi 1023" by (rule fl_pow2) simp
  from assms have "x \<le> 2 powi 1023" "- (2 powi 1023) \<le> x" by linarith+
  from fl_mono [OF this(1)] fl_mono [OF this(2)]
  have "fl x \<le> 2 powi 1023" "- (2 powi 1023) \<le> fl x" by (simp_all only: p fl_minus)
  with powi_1023_less have "\<not> 2 ^ 1024 \<le> fl x" "\<not> fl x \<le> - (2 ^ 1024)" by linarith+
  then show ?thesis by (simp only: round_number_def if_False)
qed

lemma round_number_unit: "\<bar>x\<bar> \<le> 1 \<Longrightarrow> round_number x = Fin (fl x)"
proof (rule round_number_Fin)
  assume "\<bar>x\<bar> \<le> 1"
  moreover have "(1::real) \<le> 2 powi 1023" by (rule one_le_power_int) simp_all
  ultimately show "\<bar>x\<bar> \<le> 2 powi 1023" by linarith
qed

lemma round_number_0: "round_number 0 = Fin 0"
  using round_number_unit [of 0] by (simp add: fl_0)







lemma distance_same: "px p = px q \<Longrightarrow> py p = py q \<Longrightarrow> distance p q = Fin 0"
  by (simp add: distance_def sub_number_def round_number_0 fl_0)


lemma distance_vertical:
  assumes "px p = px q" and "\<bar>py p - py q\<bar> \<le> 1"
    and "fl (py p - py q) = py p - py q"
    and "fl ((py p - py q) * (py p - py q)) = (py p - py q) * (py p - py q)"
    and "fl \<bar>py p - py q\<bar> = \<bar>py p - py q\<bar>"
  shows "distance p q = Fin \<bar>py p - py q\<bar>"
proof -
  define d where "d = py p - py q"
  have d: "\<bar>d\<bar> \<le> 1" "fl d = d" "fl (d * d) = d * d" "fl \<bar>d\<bar> = \<bar>d\<bar>"
    using assms(2-5) by (simp_all add: d_def)
  have "\<bar>d\<bar> * \<bar>d\<bar> \<le> 1 * 1" using d(1) by (intro mult_mono) simp_all
  then have dd: "\<bar>d * d\<bar> \<le> 1" by (simp add: abs_mult)
  have "sub_number (px p) (px q) = Fin 0" by (simp add: sub_number_def assms(1) round_number_0)
  moreover have "sub_number (py p) (py q) = Fin d"
    using round_number_unit [OF d(1)] by (simp add: sub_number_def d_def [symmetric] d(2))
  moreover have "round_number (d * d) = Fin (d * d)"
    using round_number_unit [OF dd] by (simp add: d(3))
  moreover have "sqrt (d * d) = \<bar>d\<bar>" by simp
  ultimately have "distance p q = Fin \<bar>d\<bar>"
    by (simp add: distance_def round_number_0 d(4))
  then show ?thesis by (simp add: d_def)
qed

lemma distance_horizontal:
  assumes "py p = py q" and "\<bar>px p - px q\<bar> \<le> 1"
    and "fl (px p - px q) = px p - px q"
    and "fl ((px p - px q) * (px p - px q)) = (px p - px q) * (px p - px q)"
    and "fl \<bar>px p - px q\<bar> = \<bar>px p - px q\<bar>"
  shows "distance p q = Fin \<bar>px p - px q\<bar>"
proof -
  define d where "d = px p - px q"
  have d: "\<bar>d\<bar> \<le> 1" "fl d = d" "fl (d * d) = d * d" "fl \<bar>d\<bar> = \<bar>d\<bar>"
    using assms(2-5) by (simp_all add: d_def)
  have "\<bar>d\<bar> * \<bar>d\<bar> \<le> 1 * 1" using d(1) by (intro mult_mono) simp_all
  then have dd: "\<bar>d * d\<bar> \<le> 1" by (simp add: abs_mult)
  have "sub_number (py p) (py q) = Fin 0" by (simp add: sub_number_def assms(1) round_number_0)
  moreover have "sub_number (px p) (px q) = Fin d"
    using round_number_unit [OF d(1)] by (simp add: sub_number_def d_def [symmetric] d(2))
  moreover have "round_number (d * d) = Fin (d * d)"
    using round_number_unit [OF dd] by (simp add: d(3))
  moreover have "sqrt (d * d) = \<bar>d\<bar>" by simp
  ultimately have "distance p q = Fin \<bar>d\<bar>"
    by (simp add: distance_def round_number_0 d(4))
  then show ?thesis by (simp add: d_def)
qed

lemma fl_sixteenth: "fl (1 / 16) = 1 / 16" "fl (1 / 256) = 1 / 256"
  using fl_pow2 [of "- 4"] fl_pow2 [of "- 8"] by (simp_all add: power_int_minus)

lemma fl_five_eighths: "fl (5 / 8) = 5 / 8"
  by (rule trans [OF fl_value [where e = "- 1" and m = 5629499534213120]])
     (simp_all add: power_int_minus rne_def Let_def)

lemma fl_25_64: "fl (25 / 64) = 25 / 64"
  by (rule trans [OF fl_value [where e = "- 2" and m = 7036874417766400]])
     (simp_all add: power_int_minus rne_def Let_def)

lemma D_tenth: "D (1 / 10) = 7205759403792794 / 2 ^ 56"
  unfolding D_def
  by (rule trans [OF fl_value [where e = "- 4" and m = 7205759403792794]])
     (simp_all add: power_int_minus rne_def Let_def)

lemma calculateEAR_quad:
  assumes "l < length landmarks" "r < length landmarks" "t < length landmarks" "b < length landmarks"
  shows "calculateEAR landmarks [l, r, t, b] =
     Inr (divide_number (distance (landmarks ! t) (landmarks ! b))
                        (distance (landmarks ! l) (landmarks ! r)))"
  using assms by (simp add: calculateEAR_def landmark_def)




section \<open>The history buffer\<close>

lemma history_finishTick: "history (finishTick s) = history s"
  by (simp add: finishTick_def renderScene_def Let_def)

lemma closeLog_finishTick: "closeLog (finishTick s) = closeLog s"
  by (simp add: finishTick_def renderScene_def Let_def)

lemma history_blink: "history (blink l r rnd s) = history s"
  by (simp add: blink_def resetScene_def)

lemma closeLog_blink: "closeLog (blink l r rnd s) = closeLog s"
  by (simp add: blink_def resetScene_def)

lemma pushFrame_below:
  "length (history s) < MAX_HISTORY \<Longrightarrow>
     history (pushFrame f s) = f # history s \<and> closeLog (pushFrame f s) = closeLog s"
  by (simp add: pushFrame_def Let_def)

lemma pushFrame_full:
  "length (history s) = MAX_HISTORY \<Longrightarrow>
     history (pushFrame f s) = f # butlast (history s) \<and>
     closeLog (pushFrame f s) =
       closeLog s @ closes (image (leftEye (last (history s)))) @
         closes (image (rightEye (last (history s))))"
  by (auto simp add: pushFrame_def Let_def MAX_HISTORY_def)

lemma pushFrame_length:
  "length (history s) \<le> MAX_HISTORY \<Longrightarrow> length (history (pushFrame f s)) \<le> MAX_HISTORY"
  by (auto simp add: pushFrame_def Let_def)

lemma pushFrame_framed:
  "framed f \<Longrightarrow> \<forall>g \<in> set (history s). framed g \<Longrightarrow> \<forall>g \<in> set (history (pushFrame f s)). framed g"
  by (auto simp add: pushFrame_def Let_def dest: in_set_butlastD)

text \<open>The try block either leaves the state alone or pushes a frame of two bitmaps.\<close>

lemma captureEyes_cases:
  "captureEyes landmarks inp s = s \<or>
   (\<exists>l r. settle (extractEye landmarks LEFT_EYE_INDICES (videoWidth inp) (videoHeight inp)) (leftBitmap inp) = Resolved (Some l) \<and>
          settle (extractEye landmarks RIGHT_EYE_INDICES (videoWidth inp) (videoHeight inp)) (rightBitmap inp) = Resolved (Some r) \<and>
      captureEyes landmarks inp s =
        pushFrame \<lparr>leftEye = \<lparr>image = Some l, timestamp = now inp,
                               bounds = \<lparr>bx = 0, by' = 0, width = 0, height = 0\<rparr>\<rparr>,
                    rightEye = \<lparr>image = Some r, timestamp = now inp,
                                bounds = \<lparr>bx = 0, by' = 0, width = 0, height = 0\<rparr>\<rparr>\<rparr> s)"
  by (auto simp add: captureEyes_def settle_def split: extraction.splits option.splits settled.splits)

lemma bounded_pushFrame: "bounded s \<Longrightarrow> framed f \<Longrightarrow> bounded (pushFrame f s)"
  unfolding bounded_def using pushFrame_length pushFrame_framed by blast

lemma bounded_captureEyes: "bounded s \<Longrightarrow> bounded (captureEyes landmarks inp s)"
proof -
  assume b: "bounded s"
  from captureEyes_cases [of landmarks inp s] show ?thesis
  proof
    assume "captureEyes landmarks inp s = s"
    with b show ?thesis by simp
  next
    assume "\<exists>l r. settle (extractEye landmarks LEFT_EYE_INDICES (videoWidth inp) (videoHeight inp)) (leftBitmap inp) = Resolved (Some l) \<and>
          settle (extractEye landmarks RIGHT_EYE_INDICES (videoWidth inp) (videoHeight inp)) (rightBitmap inp) = Resolved (Some r) \<and>
      captureEyes landmarks inp s =
        pushFrame \<lparr>leftEye = \<lparr>image = Some l, timestamp = now inp,
                               bounds = \<lparr>bx = 0, by' = 0, width = 0, height = 0\<rparr>\<rparr>,
                    rightEye = \<lparr>image = Some r, timestamp = now inp,
                                bounds = \<lparr>bx = 0, by' = 0, width = 0, height = 0\<rparr>\<rparr>\<rparr> s"
    then obtain l r where "captureEyes landmarks inp s =
        pushFrame \<lparr>leftEye = \<lparr>image = Some l, timestamp = now inp,
                               bounds = \<lparr>bx = 0, by' = 0, width = 0, height = 0\<rparr>\<rparr>,
                    rightEye = \<lparr>image = Some r, timestamp = now inp,
                                bounds = \<lparr>bx = 0, by' = 0, width = 0, height = 0\<rparr>\<rparr>\<rparr> s"
      by blast
    with b show ?thesis by (simp add: bounded_pushFrame framed_def)
  qed
qed

lemma bounded_finishTick: "bounded (finishTick s) = bounded s"
  by (simp add: bounded_def history_finishTick)

lemma bounded_blink: "bounded (blink l r rnd s) = bounded s"
  by (simp add: bounded_def history_blink)

lemma bounded_target: "bounded (s\<lparr>targetHeadPos := p\<rparr>) = bounded s"
  by (simp add: bounded_def)

lemma bounded_onResults: "bounded s \<Longrightarrow> bounded (stateOf (onResults s inp))"
  by (auto simp add: onResults_def Let_def bounded_finishTick bounded_blink bounded_target
      intro!: bounded_captureEyes split: list.splits option.splits sum.splits)

lemma bounded_run: "bounded s \<Longrightarrow> bounded (run s inps)"
  by (induction inps arbitrary: s) (simp_all add: bounded_onResults)

lemma bounded_initialState: "bounded (initialState rnd)"
  by (simp add: bounded_def initialState_def)

lemma framed_last:
  assumes "bounded s" "length (history s) = MAX_HISTORY"
  shows "\<exists>l r. image (leftEye (last (history s))) = Some l \<and> image (rightEye (last (history s))) = Some r"
proof -
  from assms have "history s \<noteq> []" by (auto simp add: MAX_HISTORY_def)
  then have "last (history s) \<in> set (history s)" by simp
  with assms(1) show ?thesis by (auto simp add: bounded_def framed_def)
qed

section \<open>Which bitmaps can be closed\<close>

lemma pushFrame_closeLog_held:
  "set (closeLog (pushFrame f s)) \<union> held (pushFrame f s) \<subseteq>
     set (closeLog s) \<union> held s \<union> set (closes (image (leftEye f))) \<union> set (closes (image (rightEye f)))"
proof (cases "length (f # history s) > MAX_HISTORY")
  case True
  then have ne: "history s \<noteq> []" by (auto simp add: MAX_HISTORY_def)
  then have "last (history s) \<in> set (history s)" by simp
  moreover have "set (butlast (history s)) \<subseteq> set (history s)" by (auto dest: in_set_butlastD)
  ultimately show ?thesis using True ne
    by (auto simp add: pushFrame_def Let_def held_def)
next
  case False
  then show ?thesis by (auto simp add: pushFrame_def Let_def held_def)
qed

lemma settle_supplied:
  "settle e c = Resolved (Some b) \<Longrightarrow> c = Some b"
  by (auto simp add: settle_def split: extraction.splits option.splits)

lemma captureEyes_closeLog_held:
  "set (closeLog (captureEyes landmarks inp s)) \<union> held (captureEyes landmarks inp s) \<subseteq>
     set (closeLog s) \<union> held s \<union> supplied inp"
proof -
  from captureEyes_cases [of landmarks inp s] show ?thesis
  proof
    assume "captureEyes landmarks inp s = s"
    then show ?thesis by auto
  next
    assume "\<exists>l r. settle (extractEye landmarks LEFT_EYE_INDICES (videoWidth inp) (videoHeight inp)) (leftBitmap inp) = Resolved (Some l) \<and>
          settle (extractEye landmarks RIGHT_EYE_INDICES (videoWidth inp) (videoHeight inp)) (rightBitmap inp) = Resolved (Some r) \<and>
      captureEyes landmarks inp s =
        pushFrame \<lparr>leftEye = \<lparr>image = Some l, timestamp = now inp,
                               bounds = \<lparr>bx = 0, by' = 0, width = 0, height = 0\<rparr>\<rparr>,
                    rightEye = \<lparr>image = Some r, timestamp = now inp,
                                bounds = \<lparr>bx = 0, by' = 0, width = 0, height = 0\<rparr>\<rparr>\<rparr> s"
    then obtain l r where
      l: "leftBitmap inp = Some l" and r: "rightBitmap inp = Some r" and
      c: "captureEyes landmarks inp s =
        pushFrame \<lparr>leftEye = \<lparr>image = Some l, timestamp = now inp,
                               bounds = \<lparr>bx = 0, by' = 0, width = 0, height = 0\<rparr>\<rparr>,
                    rightEye = \<lparr>image = Some r, timestamp = now inp,
                                bounds = \<lparr>bx = 0, by' = 0, width = 0, height = 0\<rparr>\<rparr>\<rparr> s"
      by (blast dest: settle_supplied)
    show ?thesis
      unfolding c using pushFrame_closeLog_held [of "\<lparr>leftEye = \<lparr>image = Some l, timestamp = now inp,
                               bounds = \<lparr>bx = 0, by' = 0, width = 0, height = 0\<rparr>\<rparr>,
                    rightEye = \<lparr>image = Some r, timestamp = now inp,
                                bounds = \<lparr>bx = 0, by' = 0, width = 0, height = 0\<rparr>\<rparr>\<rparr>" s] l r
      by (auto simp add: supplied_def closes_def)
  qed
qed

lemma held_finishTick: "held (finishTick s) = held s"
  by (simp add: held_def history_finishTick)

lemma held_blink: "held (blink l r rnd s) = held s"
  by (simp add: held_def history_blink)

lemma held_target: "held (s\<lparr>targetHeadPos := p\<rparr>) = held s"
  by (simp add: held_def)

lemma onResults_closeLog_held:
  "set (closeLog (stateOf (onResults s inp))) \<union> held (stateOf (onResults s inp)) \<subseteq>
     set (closeLog s) \<union> held s \<union> supplied inp"
proof (cases "ready inp")
  case False
  then show ?thesis by (auto simp add: onResults_def)
next
  case True
  show ?thesis
  proof (cases "faces inp")
    case Nil
    with True show ?thesis
      by (auto simp add: onResults_def closeLog_finishTick held_finishTick held_target)
  next
    case (Cons landmarks others)
    have *: "set (closeLog (captureEyes landmarks inp (blink l r rnd (s\<lparr>targetHeadPos := p\<rparr>)))) \<union>
             held (captureEyes landmarks inp (blink l r rnd (s\<lparr>targetHeadPos := p\<rparr>))) \<subseteq>
             set (closeLog s) \<union> held s \<union> supplied inp" for l r rnd p
      using captureEyes_closeLog_held [of landmarks inp "blink l r rnd (s\<lparr>targetHeadPos := p\<rparr>)"]
      by (simp add: closeLog_blink held_blink held_target)
    from True Cons show ?thesis
      using * by (auto simp add: onResults_def Let_def closeLog_finishTick held_finishTick held_target
          split: option.splits sum.splits)
  qed
qed

lemma run_closeLog_held:
  "set (closeLog (run s inps)) \<union> held (run s inps) \<subseteq>
     set (closeLog s) \<union> held s \<union> (\<Union>inp \<in> set inps. supplied inp)"
proof (induction inps arbitrary: s)
  case Nil
  then show ?case by simp
next
  case (Cons inp inps)
  from Cons.IH [of "stateOf (onResults s inp)"] onResults_closeLog_held [of s inp]
  show ?case by auto
qed

text \<open>One eye cropped, the other null: nothing is pushed and nothing is closed.\<close>

lemma captureEyes_one_null:
  assumes "(extractEye landmarks LEFT_EYE_INDICES (videoWidth inp) (videoHeight inp) = NoCrop \<and>
            extractEye landmarks RIGHT_EYE_INDICES (videoWidth inp) (videoHeight inp) \<noteq> NoCrop) \<or>
           (extractEye landmarks LEFT_EYE_INDICES (videoWidth inp) (videoHeight inp) \<noteq> NoCrop \<and>
            extractEye landmarks RIGHT_EYE_INDICES (videoWidth inp) (videoHeight inp) = NoCrop)"
  shows "captureEyes landmarks inp s = s"
  using assms
  by (auto simp add: captureEyes_def settle_def split: extraction.splits option.splits settled.splits)

section \<open>Evaluating the example inputs\<close>

lemma fl_half: "fl (1 / 2) = 1 / 2"
  using fl_pow2 [of "- 1"] by simp

lemma fl_ge_1: "1 \<le> x \<Longrightarrow> 1 \<le> fl x"
  using fl_ge_pow2 [of 0 x] by simp

lemma fmul_0: "fmul 0 x = 0" "fmul x 0 = 0"
  by (simp_all add: fmul_def fl_0)

lemma fmul_1: "fmul 1 1 = 1"
  by (simp add: fmul_def fl_1)

lemma fsub_self: "fsub x x = 0"
  by (simp add: fsub_def fl_0)

lemma fsub_0: "fsub (1 / 2) 0 = 1 / 2" "fsub 1 0 = 1" "fadd (1 / 2) 0 = 1 / 2"
  by (simp_all add: fsub_def fadd_def fl_half fl_1)

lemma extractEye_oneEyeFace_right:
  "extractEye oneEyeFace RIGHT_EYE_INDICES w h = NoCrop"
  by (simp add: extractEye_def RIGHT_EYE_INDICES_def oneEyeFace_def growBox_def Let_def padBox_def
      fsub_self fmul_0 fsub_0)

lemma D_nonneg: "0 \<le> q \<Longrightarrow> 0 \<le> D q"
  by (simp add: D_def fl_nonneg)

lemma padBox_unit:
  "padBox \<lparr>minX = 0, minY = 0, maxX = 1, maxY = 1\<rparr> = \<lparr>minX = 0, minY = 0, maxX = 1, maxY = 1\<rparr>"
proof -
  have p: "0 \<le> fmul 1 (D (6 / 10))" by (simp add: fmul_def fl_nonneg D_nonneg)
  have "fsub 0 (fmul 1 (D (6 / 10))) \<le> 0" using p by (simp add: fsub_def fl_nonpos)
  moreover have "1 \<le> fadd 1 (fmul 1 (D (6 / 10)))" using p by (simp add: fadd_def fl_ge_1)
  moreover have "fsub 0 1 \<le> 0" by (simp add: fsub_def fl_nonpos)
  moreover have "1 \<le> fadd 1 1" by (simp add: fadd_def fl_ge_1)
  ultimately show ?thesis
    by (simp add: padBox_def Let_def fsub_0 fmul_1 max_def min_def)
qed

lemma extractEye_oneEyeFace_left:
  "\<exists>sx sy sw sh. extractEye oneEyeFace LEFT_EYE_INDICES 640 480 = Crop sx sy sw sh"
proof -
  have b: "boxLoop oneEyeFace LEFT_EYE_INDICES \<lparr>minX = 1, minY = 1, maxX = 0, maxY = 0\<rparr> =
      Some \<lparr>minX = 0, minY = 0, maxX = 1, maxY = 1\<rparr>"
    by (simp add: LEFT_EYE_INDICES_def oneEyeFace_def growBox_def Let_def)
  have "0 < fmul 1 640" "0 < fmul 1 480"
    using fl_ge_1 [of 640] fl_ge_1 [of 480] by (simp_all add: fmul_def)
  then show ?thesis
    by (simp add: extractEye_def b padBox_unit Let_def fsub_0)
qed

section \<open>Ticks that push nothing\<close>

lemma onResults_no_capture:
  assumes "ready inp" "faces inp = landmarks # others"
    and "\<And>t. captureEyes landmarks inp t = t"
  shows "history (stateOf (onResults s inp)) = history s \<and>
         closeLog (stateOf (onResults s inp)) = closeLog s"
  using assms
  by (simp add: onResults_def Let_def history_finishTick closeLog_finishTick history_blink
      closeLog_blink split: option.splits sum.splits)

section \<open>The blink trigger and its cooldown\<close>

lemma pushFrame_fields:
  "blinkCooldown (pushFrame f s) = blinkCooldown s"
  "resetCount (pushFrame f s) = resetCount s"
  "resetFlash (pushFrame f s) = resetFlash s"
  "sceneParams (pushFrame f s) = sceneParams s"
  by (simp_all add: pushFrame_def Let_def)

lemma captureEyes_fields:
  "blinkCooldown (captureEyes landmarks inp s) = blinkCooldown s"
  "resetCount (captureEyes landmarks inp s) = resetCount s"
  "resetFlash (captureEyes landmarks inp s) = resetFlash s"
  "sceneParams (captureEyes landmarks inp s) = sceneParams s"
  using captureEyes_cases [of landmarks inp s] by (auto simp add: pushFrame_fields)

lemma finishTick_fields:
  "blinkCooldown (finishTick s) = (if blinkCooldown s > 0 then blinkCooldown s - 1 else blinkCooldown s)"
  "resetCount (finishTick s) = resetCount s"
  "resetFlash (finishTick s) = decayFlash (resetFlash s)"
  "sceneParams (finishTick s) = sceneParams s"
  by (simp_all add: finishTick_def renderScene_def Let_def)

text \<open>One tick with both eyes closed.\<close>

lemma onResults_blinking:
  assumes "blinking inp"
  shows "blinkCooldown (stateOf (onResults s inp)) =
           (if blinkCooldown s \<le> 0 then 24 else blinkCooldown s - 1)"
    and "resetCount (stateOf (onResults s inp)) =
           (if blinkCooldown s \<le> 0 then Suc (resetCount s) else resetCount s)"
    and "resetFlash (stateOf (onResults s inp)) =
           decayFlash (if blinkCooldown s \<le> 0 then 1 else resetFlash s)"
    and "sceneParams (stateOf (onResults s inp)) =
           (if blinkCooldown s \<le> 0 then generateNewScene (sceneRandom inp) else sceneParams s)"
  using assms
  by (auto simp add: blinking_def onResults_def Let_def finishTick_fields captureEyes_fields
      blink_def resetScene_def)

lemma run_append: "run s (xs @ ys) = run (run s xs) ys"
  by (induction xs arbitrary: s) simp_all

lemma run_snoc: "run s (xs @ [x]) = stateOf (onResults (run s xs) x)"
  by (simp add: run_append)

text \<open>
  Held closed from a cooldown of zero, the eyes trigger a reset on ticks 1, 26, 51, ...
\<close>

lemma run_blinking:
  assumes "\<forall>inp \<in> set inps. blinking inp" and "blinkCooldown s = 0" and "length inps = Suc m"
  shows "resetCount (run s inps) = resetCount s + m div 25 + 1 \<and>
         blinkCooldown (run s inps) = 24 - int (m mod 25)"
  using assms(1,3)
proof (induction m arbitrary: inps)
  case 0
  then obtain x where "inps = [x]" by (cases inps) auto
  with 0 assms(2) onResults_blinking(1,2) [of x s] show ?case by simp
next
  case (Suc m)
  then obtain xs x where inps: "inps = xs @ [x]"
    by (metis length_Suc_conv_rev)
  with Suc.prems have x: "blinking x" and xs: "\<forall>inp \<in> set xs. blinking inp" "length xs = Suc m"
    by simp_all
  from Suc.IH [OF xs] have IH:
    "resetCount (run s xs) = resetCount s + m div 25 + 1"
    "blinkCooldown (run s xs) = 24 - int (m mod 25)" by simp_all
  have "m mod 25 < 25" by simp
  then have "m mod 25 = 24 \<or> m mod 25 < 24" by linarith
  then show ?case
  proof
    assume t: "m mod 25 = 24"
    with IH onResults_blinking(1,2) [OF x, of "run s xs"] show ?thesis
      by (simp add: inps run_snoc mod_Suc div_Suc)
  next
    assume t: "m mod 25 < 24"
    with IH onResults_blinking(1,2) [OF x, of "run s xs"] show ?thesis
      by (simp add: inps run_snoc mod_Suc div_Suc)
  qed
qed

lemma distance_blinkFace:
  "distance (blinkFace ! 159) (blinkFace ! 145) = Fin (1 / 16)"
  "distance (blinkFace ! 33) (blinkFace ! 133) = Fin (5 / 8)"
  "distance (blinkFace ! 386) (blinkFace ! 374) = Fin (1 / 16)"
  "distance (blinkFace ! 362) (blinkFace ! 263) = Fin (5 / 8)"
  using distance_vertical [of "blinkFace ! 159" "blinkFace ! 145"]
    distance_horizontal [of "blinkFace ! 33" "blinkFace ! 133"]
    distance_vertical [of "blinkFace ! 386" "blinkFace ! 374"]
    distance_horizontal [of "blinkFace ! 362" "blinkFace ! 263"]
  by (simp_all add: blinkFace_def fl_minus fl_sixteenth fl_five_eighths fl_25_64)

text \<open>Both eye aspect ratios of the face are the double 0.1.\<close>

lemma calculateEAR_blinkFace:
  "calculateEAR blinkFace LEFT_EYE_INDICES = Inr (Fin (D (1 / 10)))"
  "calculateEAR blinkFace RIGHT_EYE_INDICES = Inr (Fin (D (1 / 10)))"
proof -
  have n: "33 < length blinkFace" "133 < length blinkFace" "159 < length blinkFace"
    "145 < length blinkFace" "362 < length blinkFace" "263 < length blinkFace"
    "386 < length blinkFace" "374 < length blinkFace"
    by (simp_all add: blinkFace_def)
  have q: "divide_number (Fin (1 / 16)) (Fin (5 / 8)) = Fin (D (1 / 10))"
    using round_number_unit [of "1 / 10"] by (simp add: D_def)
  show "calculateEAR blinkFace LEFT_EYE_INDICES = Inr (Fin (D (1 / 10)))"
    unfolding LEFT_EYE_INDICES_def calculateEAR_quad [OF n(1-4)] distance_blinkFace q ..
  show "calculateEAR blinkFace RIGHT_EYE_INDICES = Inr (Fin (D (1 / 10)))"
    unfolding RIGHT_EYE_INDICES_def calculateEAR_quad [OF n(5-8)] distance_blinkFace q ..
qed

lemma BLINK_THRESHOLD_ge: "1 / 8 \<le> BLINK_THRESHOLD"
  using fl_ge_pow2 [of "- 3" "18 / 100"] by (simp add: BLINK_THRESHOLD_def D_def)

lemma blinking_blinkInput: "blinking blinkInput"
proof -
  have "elementAt blinkFace HEAD_NOSE_INDEX = Some \<lparr>px = 1 / 2, py = 1 / 2\<rparr>"
    by (simp add: blinkFace_def HEAD_NOSE_INDEX_def)
  moreover have "D (1 / 10) < 1 / 8" unfolding D_tenth by simp
  then have "less_number (Fin (D (1 / 10))) BLINK_THRESHOLD"
    using BLINK_THRESHOLD_ge by simp
  ultimately show ?thesis
    unfolding blinking_def using calculateEAR_blinkFace
    by (simp add: blinkInput_def)
qed

subsection \<open>The first three decays of the flash\<close>

lemma flash_threshold_le: "D (1 / 1000) \<le> 1 / 512"
  using fl_le_pow2 [of "1 / 1000" "- 9"] by (simp add: D_def)

lemma decay_factor_ge: "1 / 2 \<le> D (85 / 100)"
  using fl_ge_pow2 [of "- 1" "85 / 100"] by (simp add: D_def)

lemma decayFlash_1: "decayFlash 1 = fmul 1 (D (85 / 100))"
  using flash_threshold_le by (simp add: decayFlash_def)

lemma fmul_1_decay_ge: "1 / 2 \<le> fmul 1 (D (85 / 100))"
  using fl_ge_pow2 [of "- 1" "D (85 / 100)"] decay_factor_ge by (simp add: fmul_def)

lemma decayFlash_2:
  "decayFlash (fmul 1 (D (85 / 100))) = fmul (fmul 1 (D (85 / 100))) (D (85 / 100))"
  using flash_threshold_le fmul_1_decay_ge by (simp add: decayFlash_def)

lemma fmul_2_decay_ge: "1 / 4 \<le> fmul (fmul 1 (D (85 / 100))) (D (85 / 100))"
proof -
  have "1 / 2 * (1 / 2) \<le> fmul 1 (D (85 / 100)) * D (85 / 100)"
    using fmul_1_decay_ge decay_factor_ge by (intro mult_mono) simp_all
  then have "2 powi (- 2) \<le> fmul 1 (D (85 / 100)) * D (85 / 100)" by simp
  from fl_ge_pow2 [OF this] show ?thesis by (simp add: fmul_def)
qed

lemma decayFlash_3:
  "decayFlash (fmul (fmul 1 (D (85 / 100))) (D (85 / 100))) =
     fmul (fmul (fmul 1 (D (85 / 100))) (D (85 / 100))) (D (85 / 100))"
  using flash_threshold_le fmul_2_decay_ge by (simp add: decayFlash_def)

lemma decayFlash_thrice:
  "decayFlash (decayFlash (decayFlash 1)) =
     fmul (fmul (fmul 1 (D (85 / 100))) (D (85 / 100))) (D (85 / 100))"
  by (simp only: decayFlash_1 decayFlash_2 decayFlash_3)

lemma three_ticks:
  assumes "blinking i1" "blinking i2" "blinking i3" "blinkCooldown s = 0"
  shows "resetCount (run s [i1, i2, i3]) = resetCount s + 1"
    and "sceneParams (run s [i1, i2, i3]) = generateNewScene (sceneRandom i1)"
    and "blinkCooldown (run s [i1, i2, i3]) = 22"
    and "resetFlash (run s [i1, i2, i3]) = decayFlash (decayFlash (decayFlash 1))"
  using assms(4)
  by (simp_all add: onResults_blinking [OF assms(1)] onResults_blinking [OF assms(2)]
      onResults_blinking [OF assms(3)])

lemma resets_upto_30:
  "k \<le> 30 \<Longrightarrow> k = Suc m \<Longrightarrow> m div 25 + 1 = (if k \<le> 25 then 1 else (2::nat))"
  by auto

section \<open>The eye aspect ratio\<close>

lemma sqrt_2_ge: "1 \<le> fl (sqrt 2)"
  using fl_ge_pow2 [of 0 "sqrt 2"] by simp

section \<open>The eye crop\<close>

lemma growBox_eq:
  "growBox b p =
     \<lparr>minX = min (minX b) (px p), minY = min (minY b) (py p),
      maxX = max (maxX b) (px p), maxY = max (maxY b) (py p)\<rparr>"
  by (cases b) (simp add: growBox_def Let_def min_def max_def)

lemma Min_cons_min: "Min (set (min a c # xs)) = Min (set (a # c # xs))"
  unfolding Min.set_eq_fold by (simp add: min.commute)

lemma Max_cons_max: "Max (set (max a c # xs)) = Max (set (a # c # xs))"
  unfolding Max.set_eq_fold by (simp add: max.commute)

lemma boxLoop_eq:
  assumes "\<forall>i \<in> set indices. i < length landmarks"
  shows "boxLoop landmarks indices b =
     Some \<lparr>minX = Min (set (minX b # map (\<lambda>i. px (landmarks ! i)) indices)),
           minY = Min (set (minY b # map (\<lambda>i. py (landmarks ! i)) indices)),
           maxX = Max (set (maxX b # map (\<lambda>i. px (landmarks ! i)) indices)),
           maxY = Max (set (maxY b # map (\<lambda>i. py (landmarks ! i)) indices))\<rparr>"
  using assms
proof (induction indices arbitrary: b)
  case Nil
  then show ?case by (cases b) simp
next
  case (Cons i indices)
  then have i: "i < length landmarks" and rest: "\<forall>i \<in> set indices. i < length landmarks"
    by simp_all
  have "boxLoop landmarks (i # indices) b = boxLoop landmarks indices (growBox b (landmarks ! i))"
    using i by simp
  also have "\<dots> =
     Some \<lparr>minX = Min (set (min (minX b) (px (landmarks ! i)) # map (\<lambda>i. px (landmarks ! i)) indices)),
           minY = Min (set (min (minY b) (py (landmarks ! i)) # map (\<lambda>i. py (landmarks ! i)) indices)),
           maxX = Max (set (max (maxX b) (px (landmarks ! i)) # map (\<lambda>i. px (landmarks ! i)) indices)),
           maxY = Max (set (max (maxY b) (py (landmarks ! i)) # map (\<lambda>i. py (landmarks ! i)) indices))\<rparr>"
    unfolding Cons.IH [OF rest] by (simp only: growBox_eq Box.simps)
  finally show ?case
    by (simp only: Min_cons_min Max_cons_max list.map)
qed

lemma Min_cons_1:
  assumes "xs \<noteq> []" "Min (set xs) \<le> (1::real)"
  shows "Min (set (1 # xs)) = Min (set xs)"
proof -
  have "Min (set (1 # xs)) = min 1 (Min (set xs))"
    using assms(1) by (simp only: list.set) (rule Min_insert, simp_all)
  with assms(2) show ?thesis by (simp only: min_absorb2)
qed

lemma Max_cons_0:
  assumes "xs \<noteq> []" "(0::real) \<le> Max (set xs)"
  shows "Max (set (0 # xs)) = Max (set xs)"
proof -
  have "Max (set (0 # xs)) = max 0 (Max (set xs))"
    using assms(1) by (simp only: list.set) (rule Max_insert, simp_all)
  with assms(2) show ?thesis by (simp only: max_absorb2)
qed

text \<open>
  The running minimum starts at 1 and the running maximum at 0: the loop returns the
  bounding box when the box begins at or before 1 and ends at or after 0 on both axes.
\<close>

lemma boxLoop_boundingBox:
  assumes "indices \<noteq> []" and "\<forall>i \<in> set indices. i < length landmarks"
    and "minX (boundingBox landmarks indices) \<le> 1" and "0 \<le> maxX (boundingBox landmarks indices)"
    and "minY (boundingBox landmarks indices) \<le> 1" and "0 \<le> maxY (boundingBox landmarks indices)"
  shows "boxLoop landmarks indices \<lparr>minX = 1, minY = 1, maxX = 0, maxY = 0\<rparr> =
           Some (boundingBox landmarks indices)"
proof -
  have ne: "map (\<lambda>i. px (landmarks ! i)) indices \<noteq> []" "map (\<lambda>i. py (landmarks ! i)) indices \<noteq> []"
    using assms(1) by simp_all
  have le: "Min (set (map (\<lambda>i. px (landmarks ! i)) indices)) \<le> 1"
    "Min (set (map (\<lambda>i. py (landmarks ! i)) indices)) \<le> 1"
    "0 \<le> Max (set (map (\<lambda>i. px (landmarks ! i)) indices))"
    "0 \<le> Max (set (map (\<lambda>i. py (landmarks ! i)) indices))"
    using assms(3-6) by (simp_all add: boundingBox_def)
  from boxLoop_eq [OF assms(2), of "\<lparr>minX = 1, minY = 1, maxX = 0, maxY = 0\<rparr>"]
  show ?thesis
    by (simp only: Box.simps Min_cons_1 [OF ne(1) le(1)] Min_cons_1 [OF ne(2) le(2)]
        Max_cons_0 [OF ne(1) le(3)] Max_cons_0 [OF ne(2) le(4)] boundingBox_def set_map)
qed

text \<open>Landmarks with normalized coordinates have such a bounding box.\<close>

lemma boundingBox_inFrame:
  assumes "indices \<noteq> []" and "\<forall>i \<in> set indices. inFrame (landmarks ! i)"
  shows "minX (boundingBox landmarks indices) \<le> 1" and "0 \<le> maxX (boundingBox landmarks indices)"
    and "minY (boundingBox landmarks indices) \<le> 1" and "0 \<le> maxY (boundingBox landmarks indices)"
proof -
  from assms(1) obtain i where i: "i \<in> set indices" by (cases indices) auto
  with assms(2) have f: "inFrame (landmarks ! i)" by blast
  have "Min ((\<lambda>i. px (landmarks ! i)) ` set indices) \<le> px (landmarks ! i)"
    "Min ((\<lambda>i. py (landmarks ! i)) ` set indices) \<le> py (landmarks ! i)"
    "px (landmarks ! i) \<le> Max ((\<lambda>i. px (landmarks ! i)) ` set indices)"
    "py (landmarks ! i) \<le> Max ((\<lambda>i. py (landmarks ! i)) ` set indices)"
    using i by simp_all
  with f show "minX (boundingBox landmarks indices) \<le> 1" "0 \<le> maxX (boundingBox landmarks indices)"
    "minY (boundingBox landmarks indices) \<le> 1" "0 \<le> maxY (boundingBox landmarks indices)"
    by (simp_all add: boundingBox_def inFrame_def)
qed

lemma captureEyes_null:
  assumes "extractEye landmarks LEFT_EYE_INDICES (videoWidth inp) (videoHeight inp) = NoCrop \<or>
           extractEye landmarks RIGHT_EYE_INDICES (videoWidth inp) (videoHeight inp) = NoCrop"
  shows "captureEyes landmarks inp s = s"
  using assms
  by (auto simp add: captureEyes_def settle_def split: extraction.splits option.splits settled.splits)

lemma padBox_clamped: "0 \<le> minX (padBox b) \<and> 0 \<le> minY (padBox b) \<and> maxX (padBox b) \<le> 1 \<and> maxY (padBox b) \<le> 1"
  by (simp add: padBox_def Let_def)

lemma fmul_fsub_1: "fmul (fsub a b) 1 = fsub a b"
  by (simp add: fmul_def fsub_def fl_idem)

lemma extractEye_eq:
  assumes "indices \<noteq> []" and "\<forall>i \<in> set indices. i < length landmarks"
    and "minX (boundingBox landmarks indices) \<le> 1" and "0 \<le> maxX (boundingBox landmarks indices)"
    and "minY (boundingBox landmarks indices) \<le> 1" and "0 \<le> maxY (boundingBox landmarks indices)"
  shows "extractEye landmarks indices w h =
     (let b = padBox (boundingBox landmarks indices);
          sw = fmul (fsub (maxX b) (minX b)) w;
          sh = fmul (fsub (maxY b) (minY b)) h
      in if sw \<le> 0 \<or> sh \<le> 0 then NoCrop else Crop (fmul (minX b) w) (fmul (minY b) h) sw sh)"
  by (simp add: extractEye_def boxLoop_boundingBox [OF assms] Let_def)

text \<open>
  A tick in which an eye is not cropped: nothing is pushed, and the rest of the
  callback runs. The fields are those of the state after the tick.
\<close>

lemma blink_fields:
  "blinkCooldown (blink l r rnd s) =
     (if less_number l BLINK_THRESHOLD \<and> less_number r BLINK_THRESHOLD \<and> blinkCooldown s \<le> 0
      then 25 else blinkCooldown s)"
  "resetFlash (blink l r rnd s) =
     (if less_number l BLINK_THRESHOLD \<and> less_number r BLINK_THRESHOLD \<and> blinkCooldown s \<le> 0
      then 1 else resetFlash s)"
  "sceneParams (blink l r rnd s) =
     (if less_number l BLINK_THRESHOLD \<and> less_number r BLINK_THRESHOLD \<and> blinkCooldown s \<le> 0
      then generateNewScene rnd else sceneParams s)"
  "resetCount (blink l r rnd s) =
     (if less_number l BLINK_THRESHOLD \<and> less_number r BLINK_THRESHOLD \<and> blinkCooldown s \<le> 0
      then Suc (resetCount s) else resetCount s)"
  "headPos (blink l r rnd s) = headPos s"
  "targetHeadPos (blink l r rnd s) = targetHeadPos s"
  by (simp_all add: blink_def resetScene_def)

lemma finishTick_positions:
  "headPos (finishTick s) =
     \<lparr>px = lerp (px (headPos s)) (px (targetHeadPos s)) (D (8 / 100)),
      py = lerp (py (headPos s)) (py (targetHeadPos s)) (D (8 / 100))\<rparr>"
  "targetHeadPos (finishTick s) = targetHeadPos s"
  by (simp_all add: finishTick_def renderScene_def Let_def)

lemma onResults_null_crop:
  assumes "ready inp" and "faces inp = landmarks # others"
    and "elementAt landmarks HEAD_NOSE_INDEX = Some nose"
    and "calculateEAR landmarks LEFT_EYE_INDICES = Inr leftEAR"
    and "calculateEAR landmarks RIGHT_EYE_INDICES = Inr rightEAR"
    and "extractEye landmarks LEFT_EYE_INDICES (videoWidth inp) (videoHeight inp) = NoCrop \<or>
         extractEye landmarks RIGHT_EYE_INDICES (videoWidth inp) (videoHeight inp) = NoCrop"
  shows "onResults s inp =
           Completed (finishTick (blink leftEAR rightEAR (sceneRandom inp)
             (s\<lparr>targetHeadPos := \<lparr>px = fsub 1 (px nose), py = py nose\<rparr>\<rparr>)))"
    and "history (stateOf (onResults s inp)) = history s"
    and "closeLog (stateOf (onResults s inp)) = closeLog s"
    and "targetHeadPos (stateOf (onResults s inp)) = \<lparr>px = fsub 1 (px nose), py = py nose\<rparr>"
    and "headPos (stateOf (onResults s inp)) =
           \<lparr>px = lerp (px (headPos s)) (fsub 1 (px nose)) (D (8 / 100)),
            py = lerp (py (headPos s)) (py nose) (D (8 / 100))\<rparr>"
    and "blinkCooldown (stateOf (onResults s inp)) =
           (if less_number leftEAR BLINK_THRESHOLD \<and> less_number rightEAR BLINK_THRESHOLD \<and>
               blinkCooldown s \<le> 0
            then 24 else if blinkCooldown s > 0 then blinkCooldown s - 1 else blinkCooldown s)"
    and "resetFlash (stateOf (onResults s inp)) =
           decayFlash
             (if less_number leftEAR BLINK_THRESHOLD \<and> less_number rightEAR BLINK_THRESHOLD \<and>
                 blinkCooldown s \<le> 0
              then 1 else resetFlash s)"
    and "sceneParams (stateOf (onResults s inp)) =
           (if less_number leftEAR BLINK_THRESHOLD \<and> less_number rightEAR BLINK_THRESHOLD \<and>
               blinkCooldown s \<le> 0
            then generateNewScene (sceneRandom inp) else sceneParams s)"
    and "resetCount (stateOf (onResults s inp)) =
           (if less_number leftEAR BLINK_THRESHOLD \<and> less_number rightEAR BLINK_THRESHOLD \<and>
               blinkCooldown s \<le> 0
            then Suc (resetCount s) else resetCount s)"
proof -
  show o: "onResults s inp =
           Completed (finishTick (blink leftEAR rightEAR (sceneRandom inp)
             (s\<lparr>targetHeadPos := \<lparr>px = fsub 1 (px nose), py = py nose\<rparr>\<rparr>)))"
    using assms(1-5) by (simp add: onResults_def Let_def captureEyes_null [OF assms(6)] split: if_splits)
  show "history (stateOf (onResults s inp)) = history s"
    "closeLog (stateOf (onResults s inp)) = closeLog s"
    unfolding o by (simp_all add: history_finishTick history_blink closeLog_finishTick closeLog_blink)
  show "targetHeadPos (stateOf (onResults s inp)) = \<lparr>px = fsub 1 (px nose), py = py nose\<rparr>"
    "headPos (stateOf (onResults s inp)) =
           \<lparr>px = lerp (px (headPos s)) (fsub 1 (px nose)) (D (8 / 100)),
            py = lerp (py (headPos s)) (py nose) (D (8 / 100))\<rparr>"
    unfolding o by (simp_all add: finishTick_positions blink_fields)
  show "blinkCooldown (stateOf (onResults s inp)) =
           (if less_number leftEAR BLINK_THRESHOLD \<and> less_number rightEAR BLINK_THRESHOLD \<and>
               blinkCooldown s \<le> 0
            then 24 else if blinkCooldown s > 0 then blinkCooldown s - 1 else blinkCooldown s)"
    unfolding o by (simp add: finishTick_fields blink_fields)
  show "resetFlash (stateOf (onResults s inp)) =
           decayFlash
             (if less_number leftEAR BLINK_THRESHOLD \<and> less_number rightEAR BLINK_THRESHOLD \<and>
                 blinkCooldown s \<le> 0
              then 1 else resetFlash s)"
    unfolding o by (simp add: finishTick_fields blink_fields)
  show "sceneParams (stateOf (onResults s inp)) =
           (if less_number leftEAR BLINK_THRESHOLD \<and> less_number rightEAR BLINK_THRESHOLD \<and>
               blinkCooldown s \<le> 0
            then generateNewScene (sceneRandom inp) else sceneParams s)"
    unfolding o by (simp add: finishTick_fields blink_fields)
  show "resetCount (stateOf (onResults s inp)) =
           (if less_number leftEAR BLINK_THRESHOLD \<and> less_number rightEAR BLINK_THRESHOLD \<and>
               blinkCooldown s \<le> 0
            then Suc (resetCount s) else resetCount s)"
    unfolding o by (simp add: finishTick_fields blink_fields)
qed

lemma indices_oneEyeFace: "\<forall>i \<in> set RIGHT_EYE_INDICES. i < length oneEyeFace"
  by (simp add: RIGHT_EYE_INDICES_def oneEyeFace_def)

lemma inFrame_oneEyeFace: "\<forall>i \<in> set RIGHT_EYE_INDICES. i < length oneEyeFace \<and> inFrame (oneEyeFace ! i)"
  by (simp add: RIGHT_EYE_INDICES_def oneEyeFace_def inFrame_def)

lemma calculateEAR_oneEyeFace:
  "calculateEAR oneEyeFace LEFT_EYE_INDICES = Inr (Fin 0)"
  "calculateEAR oneEyeFace RIGHT_EYE_INDICES = Inr NaN"
proof -
  have n: "33 < length oneEyeFace" "133 < length oneEyeFace" "159 < length oneEyeFace"
    "145 < length oneEyeFace" "362 < length oneEyeFace" "263 < length oneEyeFace"
    "386 < length oneEyeFace" "374 < length oneEyeFace"
    by (simp_all add: oneEyeFace_def)
  have z: "distance (oneEyeFace ! 159) (oneEyeFace ! 145) = Fin 0"
    "distance (oneEyeFace ! 386) (oneEyeFace ! 374) = Fin 0"
    "distance (oneEyeFace ! 362) (oneEyeFace ! 263) = Fin 0"
    by (simp_all add: distance_same oneEyeFace_def)
  have "round_number (- 1) = Fin (- 1)" "round_number 1 = Fin 1" "round_number 2 = Fin 2"
    using round_number_unit [of "- 1"] round_number_unit [of 1] round_number_Fin [of 2]
      fl_pow2 [of 1] one_le_power_int [of "2::real" 1022]
    by (simp_all add: fl_minus fl_1 power_int_add [of "2::real" 1022 1, simplified])
  then have d: "distance (oneEyeFace ! 33) (oneEyeFace ! 133) = Fin (fl (sqrt 2))"
    by (simp add: distance_def sub_number_def oneEyeFace_def)
  have q: "divide_number (Fin 0) (Fin (fl (sqrt 2))) = Fin 0"
    using sqrt_2_ge by (simp add: round_number_0)
  show "calculateEAR oneEyeFace LEFT_EYE_INDICES = Inr (Fin 0)"
    unfolding LEFT_EYE_INDICES_def calculateEAR_quad [OF n(1-4)] z d q ..
  show "calculateEAR oneEyeFace RIGHT_EYE_INDICES = Inr NaN"
    unfolding RIGHT_EYE_INDICES_def calculateEAR_quad [OF n(5-8)] z by simp
qed

text \<open>
  Outside the unit square the loop does not return the bounding box: its running
  minimum starts at 1 and its running maximum at 0.
\<close>

lemma boxLoop_outside_frame:
  "boxLoop [\<lparr>px = 3 / 2, py = 1 / 2\<rparr>] [0] \<lparr>minX = 1, minY = 1, maxX = 0, maxY = 0\<rparr> =
     Some \<lparr>minX = 1, minY = 1 / 2, maxX = 3 / 2, maxY = 1 / 2\<rparr>"
  by (simp add: growBox_def Let_def)

text \<open>
  The face below the frame: the loop's box starts at \<open>y = 1\<close>, not at the face, and
  the crop is the whole frame, where the bounding box gives no crop.
\<close>

lemma fl_640: "fl 640 = 640"
  by (rule trans [OF fl_value [where e = 9 and m = 5629499534213120]])
     (simp_all add: rne_def Let_def)

lemma fl_480: "fl 480 = 480"
  by (rule trans [OF fl_value [where e = 8 and m = 8444249301319680]])
     (simp_all add: rne_def Let_def)

lemma boundingBox_lowFace:
  "boundingBox lowFace LEFT_EYE_INDICES = \<lparr>minX = 0, minY = 3 / 2, maxX = 1, maxY = 2\<rparr>"
  by (simp add: boundingBox_def LEFT_EYE_INDICES_def lowFace_def)

lemma boundingBoxCrop_lowFace: "boundingBoxCrop lowFace LEFT_EYE_INDICES 640 480 = NoCrop"
proof -
  have h: "fsub 2 (3 / 2) = 1 / 2" by (simp add: fsub_def fl_half)
  have y0: "fsub (3 / 2) (1 / 2) = 1" by (simp add: fsub_def fl_1)
  have "1 \<le> fadd 2 (1 / 2)" by (simp add: fadd_def fl_ge_1)
  then have y1: "min 1 (fadd 2 (1 / 2)) = 1" by simp
  have z: "fmul (fsub 1 (max 0 1)) 480 = 0" by (simp add: fsub_self fmul_0)
  show ?thesis
    unfolding boundingBoxCrop_def boundingBox_lowFace Let_def Box.simps h y0 y1 z by simp
qed

lemma extractEye_lowFace: "extractEye lowFace LEFT_EYE_INDICES 640 480 = Crop 0 0 640 480"
proof -
  have b: "boxLoop lowFace LEFT_EYE_INDICES \<lparr>minX = 1, minY = 1, maxX = 0, maxY = 0\<rparr> =
      Some \<lparr>minX = 0, minY = 1, maxX = 1, maxY = 2\<rparr>"
    by (simp add: LEFT_EYE_INDICES_def lowFace_def growBox_def Let_def)
  have p: "0 \<le> fmul 1 (D (6 / 10))" by (simp add: fmul_def fl_nonneg D_nonneg)
  have "fsub 0 (fmul 1 (D (6 / 10))) \<le> 0" using p by (simp add: fsub_def fl_nonpos)
  moreover have "1 \<le> fadd 1 (fmul 1 (D (6 / 10)))" using p by (simp add: fadd_def fl_ge_1)
  moreover have "fsub 2 1 = 1" by (simp add: fsub_def fl_1)
  moreover have "1 \<le> fadd 2 1" by (simp add: fadd_def fl_ge_1)
  ultimately have "padBox \<lparr>minX = 0, minY = 1, maxX = 1, maxY = 2\<rparr> =
      \<lparr>minX = 0, minY = 0, maxX = 1, maxY = 1\<rparr>"
    by (simp add: padBox_def Let_def fsub_0 fmul_1 fsub_self max_def min_def)
  then show ?thesis
    by (simp add: extractEye_def b Let_def fsub_0 fmul_0 fmul_def fl_640 fl_480 fl_0)
qed

section \<open>The decay of the flash\<close>

lemma num_upper: "(8501 / 10000) ^ 43 + 43 / 2 ^ 54 \<le> (1 / 1000 - 1 / 2 ^ 63 :: real)"
  by (simp add: power_divide)

lemma num_lower: "(1 / 1000 + 1 / 2 ^ 63 :: real) < (8499 / 10000) ^ 42 - 42 / 2 ^ 54"
  by (simp add: power_divide)

lemma fl_bounds:
  assumes "\<bar>x\<bar> < 2 powi (k + 1)" "- 1022 \<le> k"
  shows "x - 2 powi (k - 53) \<le> fl x" and "fl x \<le> x + 2 powi (k - 53)"
  using fl_err [OF assms] by linarith+

lemma decay_factor_bounds: "8499 / 10000 \<le> D (85 / 100)" "D (85 / 100) \<le> 8501 / 10000"
proof -
  have a: "\<bar>85 / 100 :: real\<bar> < 2 powi (- 1 + 1)" by simp
  have k: "- 1022 \<le> (- 1 :: int)" by simp
  from fl_bounds [OF a k]
  show "8499 / 10000 \<le> D (85 / 100)" "D (85 / 100) \<le> 8501 / 10000"
    by (simp_all add: D_def power_int_minus)
qed

lemma flash_threshold_bounds:
  "1 / 1000 - 1 / 2 ^ 63 \<le> D (1 / 1000)" "D (1 / 1000) \<le> 1 / 1000 + 1 / 2 ^ 63"
  "1 / 1024 \<le> D (1 / 1000)"
proof -
  have a: "\<bar>1 / 1000 :: real\<bar> < 2 powi (- 10 + 1)" by (simp add: power_int_minus)
  have k: "- 1022 \<le> (- 10 :: int)" by simp
  from fl_bounds [OF a k]
  show "1 / 1000 - 1 / 2 ^ 63 \<le> D (1 / 1000)" "D (1 / 1000) \<le> 1 / 1000 + 1 / 2 ^ 63"
    by (simp_all add: D_def power_int_minus)
  then show "1 / 1024 \<le> D (1 / 1000)" by simp
qed

lemma fmul_decay_bounds:
  assumes "0 \<le> x" "x \<le> 1"
  shows "x * D (85 / 100) - 1 / 2 ^ 54 \<le> fmul x (D (85 / 100))"
    and "fmul x (D (85 / 100)) \<le> x * D (85 / 100) + 1 / 2 ^ 54"
    and "0 \<le> fmul x (D (85 / 100))"
proof -
  have c: "0 \<le> D (85 / 100)" "D (85 / 100) \<le> 8501 / 10000"
    using decay_factor_bounds by linarith+
  have "x * D (85 / 100) \<le> 1 * (8501 / 10000)"
    using assms c by (intro mult_mono) simp_all
  moreover have nn: "0 \<le> x * D (85 / 100)" using assms(1) c(1) by (rule mult_nonneg_nonneg)
  ultimately have "\<bar>x * D (85 / 100)\<bar> < 1" by linarith
  then have a: "\<bar>x * D (85 / 100)\<bar> < 2 powi (- 1 + 1)" by simp
  have k: "- 1022 \<le> (- 1 :: int)" by simp
  from fl_bounds [OF a k]
  show "x * D (85 / 100) - 1 / 2 ^ 54 \<le> fmul x (D (85 / 100))"
    and "fmul x (D (85 / 100)) \<le> x * D (85 / 100) + 1 / 2 ^ 54"
    by (simp_all add: fmul_def power_int_minus)
  show "0 \<le> fmul x (D (85 / 100))"
    unfolding fmul_def using nn by (rule fl_nonneg)
qed

lemma decayFlash_0: "decayFlash 0 = 0"
  using flash_threshold_bounds(3) by (simp add: decayFlash_def)

lemma decayFlash_nonneg: "0 \<le> x \<Longrightarrow> x \<le> 1 \<Longrightarrow> 0 \<le> decayFlash x"
  using fmul_decay_bounds(3) [of x] by (simp add: decayFlash_def)

lemma decayFlash_upper:
  assumes "0 \<le> x" "x \<le> 1"
  shows "decayFlash x \<le> 8501 / 10000 * x + 1 / 2 ^ 54"
proof (cases "x > D (1 / 1000)")
  case True
  have "x * D (85 / 100) \<le> x * (8501 / 10000)"
    using assms(1) decay_factor_bounds(2) by (intro mult_left_mono)
  with fmul_decay_bounds(2) [OF assms] True show ?thesis
    by (simp add: decayFlash_def)
next
  case False
  with assms(1) show ?thesis by (simp add: decayFlash_def)
qed

lemma decayFlash_le:
  assumes "0 \<le> x" "x \<le> 1"
  shows "decayFlash x \<le> x"
proof (cases "x > D (1 / 1000)")
  case True
  with flash_threshold_bounds(3) have x: "1 / 1024 < x" by simp
  have "decayFlash x \<le> 8501 / 10000 * x + 1 / 2 ^ 54" using assms by (rule decayFlash_upper)
  also have "\<dots> \<le> x" using x by simp
  finally show ?thesis .
next
  case False
  with assms(1) show ?thesis by (simp add: decayFlash_def)
qed

lemma decay_iterates:
  assumes "0 \<le> x" "x \<le> 1"
  shows "0 \<le> (decayFlash ^^ n) x \<and> (decayFlash ^^ n) x \<le> 1 \<and>
         (decayFlash ^^ n) x \<le> (8501 / 10000) ^ n + real n / 2 ^ 54"
proof (induction n)
  case 0
  with assms show ?case by simp
next
  case (Suc n)
  define y where "y = (decayFlash ^^ n) x"
  from Suc have y: "0 \<le> y" "y \<le> 1" "y \<le> (8501 / 10000) ^ n + real n / 2 ^ 54"
    by (simp_all add: y_def)
  have "decayFlash y \<le> 8501 / 10000 * y + 1 / 2 ^ 54" using y(1,2) by (rule decayFlash_upper)
  also have "8501 / 10000 * y \<le> 8501 / 10000 * ((8501 / 10000) ^ n + real n / 2 ^ 54)"
    using y(3) by (intro mult_left_mono) simp_all
  also have "\<dots> \<le> (8501 / 10000) ^ Suc n + real n / 2 ^ 54"
    by (simp add: algebra_simps)
  finally have "decayFlash y \<le> (8501 / 10000) ^ Suc n + real (Suc n) / 2 ^ 54"
    by (simp add: add_divide_distrib)
  moreover have "0 \<le> decayFlash y" using y(1,2) by (rule decayFlash_nonneg)
  moreover have "decayFlash y \<le> 1" using decayFlash_le [OF y(1,2)] y(2) by linarith
  ultimately show ?case by (simp add: y_def)
qed

lemma decay_44: 
  assumes "0 \<le> x" "x \<le> 1"
  shows "(decayFlash ^^ 44) x = 0"
proof -
  from decay_iterates [OF assms, of 43]
  have "(decayFlash ^^ 43) x \<le> (8501 / 10000) ^ 43 + 43 / 2 ^ 54" by simp
  with num_upper flash_threshold_bounds(1) have "\<not> (decayFlash ^^ 43) x > D (1 / 1000)"
    by linarith
  then have "decayFlash ((decayFlash ^^ 43) x) = 0" by (simp add: decayFlash_def)
  moreover have "(decayFlash ^^ 44) x = decayFlash ((decayFlash ^^ 43) x)"
    by (simp add: eval_nat_numeral)
  ultimately show ?thesis by simp
qed

lemma decay_stays_0: "(decayFlash ^^ n) 0 = 0"
  by (induction n) (simp_all add: decayFlash_0)

lemma decay_after_44:
  assumes "0 \<le> x" "x \<le> 1" "44 \<le> n"
  shows "(decayFlash ^^ n) x = 0"
proof -
  from assms(3) obtain k where "n = k + 44" by (metis add.commute le_Suc_ex)
  then have "(decayFlash ^^ n) x = (decayFlash ^^ k) ((decayFlash ^^ 44) x)"
    by (simp add: funpow_add)
  with decay_44 [OF assms(1,2)] decay_stays_0 show ?thesis by simp
qed

text \<open>From 1.0 the first 43 ticks all multiply: the value after them is still positive.\<close>

lemma decay_from_1_lower:
  "n \<le> 42 \<Longrightarrow> (8499 / 10000) ^ n - real n / 2 ^ 54 \<le> (decayFlash ^^ n) 1"
proof (induction n)
  case 0
  then show ?case by simp
next
  case (Suc n)
  define y where "y = (decayFlash ^^ n) 1"
  from Suc have n: "n \<le> 42" and y: "(8499 / 10000) ^ n - real n / 2 ^ 54 \<le> y"
    by (simp_all add: y_def)
  from decay_iterates [of 1 n] have y01: "0 \<le> y" "y \<le> 1" by (simp_all add: y_def)
  have "(8499 / 10000 :: real) ^ 42 \<le> (8499 / 10000) ^ n"
    using n by (intro power_decreasing) simp_all
  moreover have "real n / 2 ^ 54 \<le> 42 / 2 ^ 54" using n by (simp add: divide_right_mono)
  ultimately have "(8499 / 10000) ^ 42 - 42 / 2 ^ 54 \<le> y" using y by linarith
  with num_lower flash_threshold_bounds(2) have big: "y > D (1 / 1000)" by linarith
  have "8499 / 10000 * ((8499 / 10000) ^ n - real n / 2 ^ 54) \<le> 8499 / 10000 * y"
    using y by (intro mult_left_mono) simp_all
  also have "\<dots> = y * (8499 / 10000)" by simp
  also have "\<dots> \<le> y * D (85 / 100)"
    using y01(1) decay_factor_bounds(1) by (rule mult_left_mono [rotated])
  finally have "8499 / 10000 * ((8499 / 10000) ^ n - real n / 2 ^ 54) \<le> y * D (85 / 100)" .
  moreover have "8499 / 10000 * (real n / 2 ^ 54) \<le> real n / 2 ^ 54" by simp
  ultimately have "(8499 / 10000) ^ Suc n - real n / 2 ^ 54 \<le> y * D (85 / 100)"
    by (simp add: algebra_simps)
  with fmul_decay_bounds(1) [OF y01] big
  have "(8499 / 10000) ^ Suc n - real (Suc n) / 2 ^ 54 \<le> decayFlash y"
    by (simp add: decayFlash_def add_divide_distrib)
  then show ?case by (simp add: y_def)
qed

lemma decay_43_from_1: "0 < (decayFlash ^^ 43) 1"
proof -
  define y where "y = (decayFlash ^^ 42) 1"
  from decay_from_1_lower [of 42] have "(8499 / 10000) ^ 42 - 42 / 2 ^ 54 \<le> y"
    by (simp add: y_def)
  with num_lower flash_threshold_bounds(2) have big: "y > D (1 / 1000)" by linarith
  with flash_threshold_bounds(3) have ypos: "1 / 1024 < y" by linarith
  from decay_iterates [of 1 42] have y01: "0 \<le> y" "y \<le> 1" by (simp_all add: y_def)
  have "1 / 1024 * (8499 / 10000) \<le> y * D (85 / 100)"
    using ypos decay_factor_bounds(1) by (intro mult_mono) simp_all
  with fmul_decay_bounds(1) [OF y01] have "0 < fmul y (D (85 / 100))" by simp
  with big have "0 < decayFlash y" by (simp add: decayFlash_def)
  moreover have "(decayFlash ^^ 43) 1 = decayFlash y"
    by (simp add: y_def eval_nat_numeral)
  ultimately show ?thesis by simp
qed

lemma funpow_Suc_outer: "(f ^^ Suc n) x = f ((f ^^ n) x)"
  by simp

lemma resetFlash_renderScene: "resetFlash ((renderScene ^^ n) s) = (decayFlash ^^ n) (resetFlash s)"
  by (induction n) (simp_all add: renderScene_def)
section \<open>The smoothing of the head position\<close>



lemma p1: "fmul (5 / 8) (8286623314361713 / 2 ^ 53) = 5179139571476071 / 2 ^ 53"
  unfolding fmul_def
  by (rule trans [OF fl_value [where e = "- 1" and m = 5179139571476071]])
     (simp_all add: power_int_minus rne_def Let_def)

lemma p2: "fmul (5 / 8) (5764607523034235 / 2 ^ 56) = 3602879701896397 / 2 ^ 56"
  unfolding fmul_def
  by (rule trans [OF fl_value [where e = "- 5" and m = 7205759403792794]])
     (simp_all add: power_int_minus rne_def Let_def)










section \<open>The ranges of the scene generator\<close>

text \<open>
  \<open>Math.random()\<close> returns a double that is at least 0 and less than 1; the largest
  such double is \<open>1 - 1 / 2 ^ 53\<close>.
\<close>

lemma draw_le_top:
  assumes "draw r"
  shows "r \<le> 1 - 1 / 2 ^ 53"
proof (rule ccontr)
  assume "\<not> r \<le> 1 - 1 / 2 ^ 53"
  then have gt: "1 - 1 / 2 ^ 53 < r" by simp
  from assms have lt: "r < 1" and fx: "fl r = r" by (simp_all add: draw_def)
  have lo: "2 powi (- 1) \<le> \<bar>r\<bar>" using gt by (simp add: power_int_minus)
  have hi: "\<bar>r\<bar> < 2 powi (- 1 + 1)" using gt lt by simp
  define m where "m = rne (r / 2 powi (- 1 - 52))"
  from fl_eval [OF lo hi] fx
  have "r = of_int m * 2 powi (- 1 - 52)" by (simp add: m_def)
  then have r: "r = of_int m / 2 ^ 53" by (simp add: power_int_minus)
  define j where "j = 2 ^ 53 - m"
  have j: "real_of_int j = (1 - r) * 2 ^ 53" by (simp add: j_def r)
  have "0 < (1 - r) * 2 ^ 53" using lt by simp
  moreover have "(1 - r) * 2 ^ 53 < 1 / 2 ^ 53 * 2 ^ 53"
    using gt by (intro mult_strict_right_mono) simp_all
  ultimately have "0 < real_of_int j" "real_of_int j < 1" unfolding j by simp_all
  then have "0 < j" "j < 1" by simp_all
  then show False by simp
qed

lemma randomRange_le:
  assumes "r \<le> t" "0 \<le> fsub mx mn"
  shows "randomRange r mn mx \<le> randomRange t mn mx"
proof -
  have "r * fsub mx mn \<le> t * fsub mx mn" using assms by (rule mult_right_mono)
  then have "fmul r (fsub mx mn) \<le> fmul t (fsub mx mn)" unfolding fmul_def by (rule fl_mono)
  then have "fmul r (fsub mx mn) + mn \<le> fmul t (fsub mx mn) + mn" by simp
  then show ?thesis unfolding randomRange_def fadd_def by (rule fl_mono)
qed

lemma randomRange_ge:
  assumes "0 \<le> r" "0 \<le> fsub mx mn" "fl mn = mn"
  shows "mn \<le> randomRange r mn mx"
proof -
  have "0 \<le> r * fsub mx mn" using assms(1,2) by (rule mult_nonneg_nonneg)
  then have "0 \<le> fmul r (fsub mx mn)" unfolding fmul_def by (rule fl_nonneg)
  then have "mn \<le> fmul r (fsub mx mn) + mn" by simp
  then have "fl mn \<le> fl (fmul r (fsub mx mn) + mn)" by (rule fl_mono)
  with assms(3) show ?thesis by (simp add: randomRange_def fadd_def)
qed

lemma fl_D: "fl (D q) = D q"
  by (simp add: D_def fl_idem)

lemma fl_count_lo: "fl 20 = 20"
  by (rule trans [OF fl_value [where e = "4" and m = 5629499534213120]])
     (simp_all add: power_int_minus rne_def Let_def)

lemma width_count: "fsub 35 20 = 15"
  unfolding fsub_def
  by (rule trans [OF fl_value [where e = "3" and m = 8444249301319680]])
     (simp_all add: power_int_minus rne_def Let_def)

lemma prod_count: "fmul (1 - 1 / 2 ^ 53) 15 = 8444249301319679 / 2 ^ 49"
  unfolding fmul_def
  by (rule trans [OF fl_value [where e = "3" and m = 8444249301319679]])
     (simp_all add: power_int_minus rne_def Let_def)

lemma sum_count: "fadd (8444249301319679 / 2 ^ 49) 20 = 35"
  unfolding fadd_def
  by (rule trans [OF fl_value [where e = "5" and m = 4925812092436480]])
     (simp_all add: power_int_minus rne_def Let_def)

lemma randomRange_count_top: "randomRange (1 - 1 / 2 ^ 53) 20 35 = 35"
  unfolding randomRange_def width_count prod_count sum_count ..

lemma randomRange_count:
  assumes "draw r"
  shows "20 \<le> randomRange r 20 35"
    and "randomRange r 20 35 \<le> 35"
proof -
  have w: "0 \<le> fsub 35 20"
    unfolding width_count by simp
  have f: "fl 20 = 20" by (rule fl_count_lo)
  from assms have r: "0 \<le> r" by (simp add: draw_def)
  show "20 \<le> randomRange r 20 35"
    using r w f by (rule randomRange_ge)
  have "randomRange r 20 35 \<le> randomRange (1 - 1 / 2 ^ 53) 20 35"
    using draw_le_top [OF assms] w by (rule randomRange_le)
  also have "\<dots> = 35" by (rule randomRange_count_top)
  finally show "randomRange r 20 35 \<le> 35" .
qed

lemma fl_delay_lo: "fl 2 = 2"
  by (rule trans [OF fl_value [where e = "1" and m = 4503599627370496]])
     (simp_all add: power_int_minus rne_def Let_def)

lemma width_delay: "fsub 45 2 = 43"
  unfolding fsub_def
  by (rule trans [OF fl_value [where e = "5" and m = 6051711999279104]])
     (simp_all add: power_int_minus rne_def Let_def)

lemma prod_delay: "fmul (1 - 1 / 2 ^ 53) 43 = 6051711999279103 / 2 ^ 47"
  unfolding fmul_def
  by (rule trans [OF fl_value [where e = "5" and m = 6051711999279103]])
     (simp_all add: power_int_minus rne_def Let_def)

lemma sum_delay: "fadd (6051711999279103 / 2 ^ 47) 2 = 6333186975989759 / 2 ^ 47"
  unfolding fadd_def
  by (rule trans [OF fl_value [where e = "5" and m = 6333186975989759]])
     (simp_all add: power_int_minus rne_def Let_def)

lemma randomRange_delay_top: "randomRange (1 - 1 / 2 ^ 53) 2 45 = 6333186975989759 / 2 ^ 47"
  unfolding randomRange_def width_delay prod_delay sum_delay ..

lemma randomRange_delay:
  assumes "draw r"
  shows "2 \<le> randomRange r 2 45"
    and "randomRange r 2 45 < 45"
proof -
  have w: "0 \<le> fsub 45 2"
    unfolding width_delay by simp
  have f: "fl 2 = 2" by (rule fl_delay_lo)
  from assms have r: "0 \<le> r" by (simp add: draw_def)
  show "2 \<le> randomRange r 2 45"
    using r w f by (rule randomRange_ge)
  have "randomRange r 2 45 \<le> randomRange (1 - 1 / 2 ^ 53) 2 45"
    using draw_le_top [OF assms] w by (rule randomRange_le)
  also have "\<dots> = 6333186975989759 / 2 ^ 47" by (rule randomRange_delay_top)
  also have "\<dots> < 45"  by simp
  finally show "randomRange r 2 45 < 45" .
qed

lemma D_pos_lo: "D (5 / 100) = 3602879701896397 / 2 ^ 56"
  unfolding D_def
  by (rule trans [OF fl_value [where e = "- 5" and m = 7205759403792794]])
     (simp_all add: power_int_minus rne_def Let_def)

lemma D_pos_hi: "D (95 / 100) = 4278419646001971 / 2 ^ 52"
  unfolding D_def
  by (rule trans [OF fl_value [where e = "- 1" and m = 8556839292003942]])
     (simp_all add: power_int_minus rne_def Let_def)

lemma width_pos: "fsub (4278419646001971 / 2 ^ 52) (3602879701896397 / 2 ^ 56) = 2026619832316723 / 2 ^ 51"
  unfolding fsub_def
  by (rule trans [OF fl_value [where e = "- 1" and m = 8106479329266892]])
     (simp_all add: power_int_minus rne_def Let_def)

lemma prod_pos: "fmul (1 - 1 / 2 ^ 53) (2026619832316723 / 2 ^ 51) = 8106479329266891 / 2 ^ 53"
  unfolding fmul_def
  by (rule trans [OF fl_value [where e = "- 1" and m = 8106479329266891]])
     (simp_all add: power_int_minus rne_def Let_def)

lemma sum_pos: "fadd (8106479329266891 / 2 ^ 53) (3602879701896397 / 2 ^ 56) = 8556839292003941 / 2 ^ 53"
  unfolding fadd_def
  by (rule trans [OF fl_value [where e = "- 1" and m = 8556839292003941]])
     (simp_all add: power_int_minus rne_def Let_def)

lemma randomRange_pos_top: "randomRange (1 - 1 / 2 ^ 53) (D (5 / 100)) (D (95 / 100)) = 8556839292003941 / 2 ^ 53"
  unfolding randomRange_def D_pos_lo D_pos_hi width_pos prod_pos sum_pos ..

lemma randomRange_pos:
  assumes "draw r"
  shows "D (5 / 100) \<le> randomRange r (D (5 / 100)) (D (95 / 100))"
    and "randomRange r (D (5 / 100)) (D (95 / 100)) < D (95 / 100)"
proof -
  have w: "0 \<le> fsub (D (95 / 100)) (D (5 / 100))"
    unfolding D_pos_lo D_pos_hi width_pos by simp
  have f: "fl (D (5 / 100)) = D (5 / 100)" by (rule fl_D)
  from assms have r: "0 \<le> r" by (simp add: draw_def)
  show "D (5 / 100) \<le> randomRange r (D (5 / 100)) (D (95 / 100))"
    using r w f by (rule randomRange_ge)
  have "randomRange r (D (5 / 100)) (D (95 / 100)) \<le> randomRange (1 - 1 / 2 ^ 53) (D (5 / 100)) (D (95 / 100))"
    using draw_le_top [OF assms] w by (rule randomRange_le)
  also have "\<dots> = 8556839292003941 / 2 ^ 53" by (rule randomRange_pos_top)
  also have "\<dots> < D (95 / 100)" unfolding D_pos_hi by simp
  finally show "randomRange r (D (5 / 100)) (D (95 / 100)) < D (95 / 100)" .
qed

lemma D_focal_lo: "D (18 / 10) = 8106479329266893 / 2 ^ 52"
  unfolding D_def
  by (rule trans [OF fl_value [where e = "0" and m = 8106479329266893]])
     (simp_all add: power_int_minus rne_def Let_def)

lemma D_focal_hi: "D (25 / 10) = 5 / 2 ^ 1"
  unfolding D_def
  by (rule trans [OF fl_value [where e = "1" and m = 5629499534213120]])
     (simp_all add: power_int_minus rne_def Let_def)

lemma width_focal: "fsub (5 / 2 ^ 1) (8106479329266893 / 2 ^ 52) = 3152519739159347 / 2 ^ 52"
  unfolding fsub_def
  by (rule trans [OF fl_value [where e = "- 1" and m = 6305039478318694]])
     (simp_all add: power_int_minus rne_def Let_def)

lemma prod_focal: "fmul (1 - 1 / 2 ^ 53) (3152519739159347 / 2 ^ 52) = 6305039478318693 / 2 ^ 53"
  unfolding fmul_def
  by (rule trans [OF fl_value [where e = "- 1" and m = 6305039478318693]])
     (simp_all add: power_int_minus rne_def Let_def)

lemma sum_focal: "fadd (6305039478318693 / 2 ^ 53) (8106479329266893 / 2 ^ 52) = 5 / 2 ^ 1"
  unfolding fadd_def
  by (rule trans [OF fl_value [where e = "1" and m = 5629499534213120]])
     (simp_all add: power_int_minus rne_def Let_def)

lemma randomRange_focal_top: "randomRange (1 - 1 / 2 ^ 53) (D (18 / 10)) (D (25 / 10)) = 5 / 2 ^ 1"
  unfolding randomRange_def D_focal_lo D_focal_hi width_focal prod_focal sum_focal ..

lemma randomRange_focal:
  assumes "draw r"
  shows "D (18 / 10) \<le> randomRange r (D (18 / 10)) (D (25 / 10))"
    and "randomRange r (D (18 / 10)) (D (25 / 10)) \<le> D (25 / 10)"
proof -
  have w: "0 \<le> fsub (D (25 / 10)) (D (18 / 10))"
    unfolding D_focal_lo D_focal_hi width_focal by simp
  have f: "fl (D (18 / 10)) = D (18 / 10)" by (rule fl_D)
  from assms have r: "0 \<le> r" by (simp add: draw_def)
  show "D (18 / 10) \<le> randomRange r (D (18 / 10)) (D (25 / 10))"
    using r w f by (rule randomRange_ge)
  have "randomRange r (D (18 / 10)) (D (25 / 10)) \<le> randomRange (1 - 1 / 2 ^ 53) (D (18 / 10)) (D (25 / 10))"
    using draw_le_top [OF assms] w by (rule randomRange_le)
  also have "\<dots> = 5 / 2 ^ 1" by (rule randomRange_focal_top)
  also have "\<dots> = D (25 / 10)" by (simp only: D_focal_hi)
  finally show "randomRange r (D (18 / 10)) (D (25 / 10)) \<le> D (25 / 10)" .
qed

lemma D_scale_lo: "D (3 / 10) = 5404319552844595 / 2 ^ 54"
  unfolding D_def
  by (rule trans [OF fl_value [where e = "- 2" and m = 5404319552844595]])
     (simp_all add: power_int_minus rne_def Let_def)

lemma D_scale_hi: "D (14 / 10) = 3152519739159347 / 2 ^ 51"
  unfolding D_def
  by (rule trans [OF fl_value [where e = "0" and m = 6305039478318694]])
     (simp_all add: power_int_minus rne_def Let_def)

lemma width_scale: "fsub (3152519739159347 / 2 ^ 51) (5404319552844595 / 2 ^ 54) = 4953959590107545 / 2 ^ 52"
  unfolding fsub_def
  by (rule trans [OF fl_value [where e = "0" and m = 4953959590107545]])
     (simp_all add: power_int_minus rne_def Let_def)

lemma prod_scale: "fmul (1 - 1 / 2 ^ 53) (4953959590107545 / 2 ^ 52) = 619244948763443 / 2 ^ 49"
  unfolding fmul_def
  by (rule trans [OF fl_value [where e = "0" and m = 4953959590107544]])
     (simp_all add: power_int_minus rne_def Let_def)

lemma sum_scale: "fadd (619244948763443 / 2 ^ 49) (5404319552844595 / 2 ^ 54) = 6305039478318693 / 2 ^ 52"
  unfolding fadd_def
  by (rule trans [OF fl_value [where e = "0" and m = 6305039478318693]])
     (simp_all add: power_int_minus rne_def Let_def)

lemma randomRange_scale_top: "randomRange (1 - 1 / 2 ^ 53) (D (3 / 10)) (D (14 / 10)) = 6305039478318693 / 2 ^ 52"
  unfolding randomRange_def D_scale_lo D_scale_hi width_scale prod_scale sum_scale ..

lemma randomRange_scale:
  assumes "draw r"
  shows "D (3 / 10) \<le> randomRange r (D (3 / 10)) (D (14 / 10))"
    and "randomRange r (D (3 / 10)) (D (14 / 10)) < D (14 / 10)"
proof -
  have w: "0 \<le> fsub (D (14 / 10)) (D (3 / 10))"
    unfolding D_scale_lo D_scale_hi width_scale by simp
  have f: "fl (D (3 / 10)) = D (3 / 10)" by (rule fl_D)
  from assms have r: "0 \<le> r" by (simp add: draw_def)
  show "D (3 / 10) \<le> randomRange r (D (3 / 10)) (D (14 / 10))"
    using r w f by (rule randomRange_ge)
  have "randomRange r (D (3 / 10)) (D (14 / 10)) \<le> randomRange (1 - 1 / 2 ^ 53) (D (3 / 10)) (D (14 / 10))"
    using draw_le_top [OF assms] w by (rule randomRange_le)
  also have "\<dots> = 6305039478318693 / 2 ^ 52" by (rule randomRange_scale_top)
  also have "\<dots> < D (14 / 10)" unfolding D_scale_hi by simp
  finally show "randomRange r (D (3 / 10)) (D (14 / 10)) < D (14 / 10)" .
qed

lemma D_glitch_lo: "D (1 / 10) = 3602879701896397 / 2 ^ 55"
  unfolding D_def
  by (rule trans [OF fl_value [where e = "- 4" and m = 7205759403792794]])
     (simp_all add: power_int_minus rne_def Let_def)

lemma D_glitch_hi: "D (9 / 10) = 8106479329266893 / 2 ^ 53"
  unfolding D_def
  by (rule trans [OF fl_value [where e = "- 1" and m = 8106479329266893]])
     (simp_all add: power_int_minus rne_def Let_def)

lemma width_glitch: "fsub (8106479329266893 / 2 ^ 53) (3602879701896397 / 2 ^ 55) = 3602879701896397 / 2 ^ 52"
  unfolding fsub_def
  by (rule trans [OF fl_value [where e = "- 1" and m = 7205759403792794]])
     (simp_all add: power_int_minus rne_def Let_def)

lemma prod_glitch: "fmul (1 - 1 / 2 ^ 53) (3602879701896397 / 2 ^ 52) = 7205759403792793 / 2 ^ 53"
  unfolding fmul_def
  by (rule trans [OF fl_value [where e = "- 1" and m = 7205759403792793]])
     (simp_all add: power_int_minus rne_def Let_def)

lemma sum_glitch: "fadd (7205759403792793 / 2 ^ 53) (3602879701896397 / 2 ^ 55) = 2026619832316723 / 2 ^ 51"
  unfolding fadd_def
  by (rule trans [OF fl_value [where e = "- 1" and m = 8106479329266892]])
     (simp_all add: power_int_minus rne_def Let_def)

lemma randomRange_glitch_top: "randomRange (1 - 1 / 2 ^ 53) (D (1 / 10)) (D (9 / 10)) = 2026619832316723 / 2 ^ 51"
  unfolding randomRange_def D_glitch_lo D_glitch_hi width_glitch prod_glitch sum_glitch ..

lemma randomRange_glitch:
  assumes "draw r"
  shows "D (1 / 10) \<le> randomRange r (D (1 / 10)) (D (9 / 10))"
    and "randomRange r (D (1 / 10)) (D (9 / 10)) < D (9 / 10)"
proof -
  have w: "0 \<le> fsub (D (9 / 10)) (D (1 / 10))"
    unfolding D_glitch_lo D_glitch_hi width_glitch by simp
  have f: "fl (D (1 / 10)) = D (1 / 10)" by (rule fl_D)
  from assms have r: "0 \<le> r" by (simp add: draw_def)
  show "D (1 / 10) \<le> randomRange r (D (1 / 10)) (D (9 / 10))"
    using r w f by (rule randomRange_ge)
  have "randomRange r (D (1 / 10)) (D (9 / 10)) \<le> randomRange (1 - 1 / 2 ^ 53) (D (1 / 10)) (D (9 / 10))"
    using draw_le_top [OF assms] w by (rule randomRange_le)
  also have "\<dots> = 2026619832316723 / 2 ^ 51" by (rule randomRange_glitch_top)
  also have "\<dots> < D (9 / 10)" unfolding D_glitch_hi by simp
  finally show "randomRange r (D (1 / 10)) (D (9 / 10)) < D (9 / 10)" .
qed

subsection \<open>The generated scene\<close>

lemma D_half: "D (1 / 2) = 1 / 2"
  using fl_pow2 [of "- 1"] by (simp add: D_def)

lemma floor_delay:
  assumes "draw r"
  shows "2 \<le> \<lfloor>randomRange r 2 45\<rfloor>" and "\<lfloor>randomRange r 2 45\<rfloor> < 45"
  using randomRange_delay [OF assms] by (simp_all add: le_floor_iff floor_less_iff)

lemma floor_count:
  assumes "draw r"
  shows "20 \<le> \<lfloor>randomRange r 20 35\<rfloor>" and "\<lfloor>randomRange r 20 35\<rfloor> \<le> 35"
  using randomRange_count [OF assms] by (simp_all add: le_floor_iff floor_le_iff)

lemma newShape_focal:
  assumes "\<forall>n. draw (rnd n)"
  shows "focalShape (fst (newShape palette rnd 0 k))"
  using randomRange_focal [of "rnd (k + 2)"] assms
  by (simp add: newShape_def focalShape_def D_half)

lemma newShape_fragment:
  assumes "\<forall>n. draw (rnd n)" and "0 < i"
  shows "fragmentShape (fst (newShape palette rnd i k))"
  using randomRange_pos [of "rnd (k + 2)"] randomRange_pos [of "rnd (k + 3)"]
    randomRange_scale [of "rnd (k + 4)"] assms
  by (simp add: newShape_def fragmentShape_def)

lemma newShape_delayed:
  assumes "\<forall>n. draw (rnd n)"
  shows "delayedShape (fst (newShape palette rnd i k))"
  using floor_delay [of "rnd (k + 1)"] randomRange_glitch [of "rnd (k + 4)"]
    randomRange_glitch [of "rnd (k + 6)"] assms
  by (simp add: newShape_def delayedShape_def)

lemma fragment_not_focal: "fragmentShape s \<Longrightarrow> \<not> focalShape s"
proof -
  have "D (14 / 10) < D (18 / 10)" unfolding D_scale_hi D_focal_lo by simp
  then show "fragmentShape s \<Longrightarrow> \<not> focalShape s"
    by (simp add: fragmentShape_def focalShape_def)
qed

lemma shapesLoop_props:
  "(\<forall>j k. Q j (fst (newShape palette rnd j k))) \<Longrightarrow>
   length acc = i \<Longrightarrow> \<forall>n < length acc. Q n (acc ! n) \<Longrightarrow>
   length (fst (shapesLoop palette rnd shapeCount i k acc)) = max i (nat shapeCount) \<and>
   (\<forall>n < length (fst (shapesLoop palette rnd shapeCount i k acc)).
      Q n (fst (shapesLoop palette rnd shapeCount i k acc) ! n))"
proof (induction palette rnd shapeCount i k acc rule: shapesLoop.induct)
  case (1 palette rnd shapeCount i k acc)
  show ?case
  proof (cases "int i < shapeCount")
    case False
    then have "nat shapeCount \<le> i" by linarith
    moreover have "shapesLoop palette rnd shapeCount i k acc = (acc, k)"
      using False by (subst shapesLoop.simps) simp
    ultimately show ?thesis using "1.prems" by (simp add: max_def)
  next
    case True
    obtain shape k' where ns: "newShape palette rnd i k = (shape, k')"
      by (cases "newShape palette rnd i k")
    have "Q i (fst (newShape palette rnd i k))" using "1.prems"(1) by blast
    then have q: "Q i shape" using ns by simp
    have len: "length (acc @ [shape]) = Suc i" using "1.prems"(2) by simp
    have all: "\<forall>n < length (acc @ [shape]). Q n ((acc @ [shape]) ! n)"
      using "1.prems"(2,3) q by (auto simp add: nth_append less_Suc_eq)
    from "1.IH" [OF True ns [symmetric] "1.prems"(1) len all]
    have "length (fst (shapesLoop palette rnd shapeCount (Suc i) k' (acc @ [shape]))) =
            max (Suc i) (nat shapeCount) \<and>
          (\<forall>n < length (fst (shapesLoop palette rnd shapeCount (Suc i) k' (acc @ [shape]))).
             Q n (fst (shapesLoop palette rnd shapeCount (Suc i) k' (acc @ [shape])) ! n))" .
    moreover have "shapesLoop palette rnd shapeCount i k acc =
        shapesLoop palette rnd shapeCount (Suc i) k' (acc @ [shape])"
      using True ns by (subst shapesLoop.simps) simp
    moreover have "max (Suc i) (nat shapeCount) = max i (nat shapeCount)"
      using True by simp
    ultimately show ?thesis by simp
  qed
qed

lemma shapesLoop_prefix:
  "n < length acc \<Longrightarrow> fst (shapesLoop palette rnd shapeCount i k acc) ! n = acc ! n"
proof (induction palette rnd shapeCount i k acc rule: shapesLoop.induct)
  case (1 palette rnd shapeCount i k acc)
  show ?case
  proof (cases "int i < shapeCount")
    case False
    then show ?thesis by (subst shapesLoop.simps) simp
  next
    case True
    obtain shape k' where ns: "newShape palette rnd i k = (shape, k')"
      by (cases "newShape palette rnd i k")
    have "n < length (acc @ [shape])" using "1.prems" by simp
    from "1.IH" [OF True ns [symmetric] this]
    have "fst (shapesLoop palette rnd shapeCount (Suc i) k' (acc @ [shape])) ! n = acc ! n"
      using "1.prems" by (simp add: nth_append)
    moreover have "shapesLoop palette rnd shapeCount i k acc =
        shapesLoop palette rnd shapeCount (Suc i) k' (acc @ [shape])"
      using True ns by (subst shapesLoop.simps) simp
    ultimately show ?thesis by simp
  qed
qed

lemma shapesLoop_first:
  assumes "0 < shapeCount"
  shows "fst (shapesLoop palette rnd shapeCount 0 k []) ! 0 = fst (newShape palette rnd 0 k)"
proof -
  obtain shape k' where ns: "newShape palette rnd 0 k = (shape, k')"
    by (cases "newShape palette rnd 0 k")
  have "shapesLoop palette rnd shapeCount 0 k [] =
      shapesLoop palette rnd shapeCount (Suc 0) k' ([] @ [shape])"
    using assms ns by (subst shapesLoop.simps) simp
  then show ?thesis
    using ns shapesLoop_prefix [of 0 "[] @ [shape]" palette rnd shapeCount "Suc 0" k'] by simp
qed

lemma shapes_generateNewScene:
  "shapes (generateNewScene rnd) =
     fst (shapesLoop (PALETTES ! nat \<lfloor>fmul (rnd 0) 8\<rfloor>) rnd \<lfloor>randomRange (rnd 1) 20 35\<rfloor> 0 2 [])"
  unfolding generateNewScene_def Let_def case_prod_beta by (rule SceneParams.select_convs)

lemma generateNewScene_shapes:
  assumes "\<forall>n. draw (rnd n)" and "\<forall>palette j k. Q j (fst (newShape palette rnd j k))"
  shows "20 \<le> length (shapes (generateNewScene rnd))"
    and "length (shapes (generateNewScene rnd)) \<le> 35"
    and "\<forall>n < length (shapes (generateNewScene rnd)). Q n (shapes (generateNewScene rnd) ! n)"
proof -
  let ?c = "\<lfloor>randomRange (rnd 1) 20 35\<rfloor>"
  let ?p = "PALETTES ! nat \<lfloor>fmul (rnd 0) 8\<rfloor>"
  have c: "20 \<le> ?c" "?c \<le> 35" using floor_count [of "rnd 1"] assms(1) by simp_all
  have "length (fst (shapesLoop ?p rnd ?c 0 2 [])) = max 0 (nat ?c) \<and>
        (\<forall>n < length (fst (shapesLoop ?p rnd ?c 0 2 [])).
           Q n (fst (shapesLoop ?p rnd ?c 0 2 []) ! n))"
    using assms(2) by (intro shapesLoop_props) simp_all
  then have l: "length (shapes (generateNewScene rnd)) = nat ?c"
    and q: "\<forall>n < length (shapes (generateNewScene rnd)). Q n (shapes (generateNewScene rnd) ! n)"
    unfolding shapes_generateNewScene by simp_all
  show "20 \<le> length (shapes (generateNewScene rnd))" using l c by linarith
  show "length (shapes (generateNewScene rnd)) \<le> 35" using l c by linarith
  show "\<forall>n < length (shapes (generateNewScene rnd)). Q n (shapes (generateNewScene rnd) ! n)"
    by (rule q)
qed

lemma generateNewScene_first:
  assumes "draw (rnd 1)"
  shows "shapes (generateNewScene rnd) ! 0 =
         fst (newShape (PALETTES ! nat \<lfloor>fmul (rnd 0) 8\<rfloor>) rnd 0 2)"
  unfolding shapes_generateNewScene
  using floor_count(1) [OF assms] by (intro shapesLoop_first) simp


lemma length_generateNewScene:
  "length (shapes (generateNewScene rnd)) = nat \<lfloor>randomRange (rnd 1) 20 35\<rfloor>"
proof -
  let ?c = "\<lfloor>randomRange (rnd 1) 20 35\<rfloor>"
  let ?p = "PALETTES ! nat \<lfloor>fmul (rnd 0) 8\<rfloor>"
  have "length (fst (shapesLoop ?p rnd ?c 0 2 [])) = max 0 (nat ?c) \<and>
        (\<forall>n < length (fst (shapesLoop ?p rnd ?c 0 2 [])). (\<lambda>j s. True) n
           (fst (shapesLoop ?p rnd ?c 0 2 []) ! n))"
    by (intro shapesLoop_props) simp_all
  then show ?thesis unfolding shapes_generateNewScene by simp
qed

lemma draw_0: "draw 0"
  by (simp add: draw_def fl_0)

lemma draw_top: "draw (1 - 1 / 2 ^ 53)"
proof -
  have "fl (1 - 1 / 2 ^ 53) = of_int 9007199254740991 * 2 powi (- 1 - 52)"
    by (rule fl_value) (simp_all add: power_int_minus rne_def Let_def)
  then show ?thesis by (simp add: draw_def power_int_minus)
qed

lemma draw_drawsAt: "draw a \<Longrightarrow> draw b \<Longrightarrow> draw (drawsAt i a j b n)"
  by (simp add: drawsAt_def draw_0)

section \<open>Filling the history\<close>

lemma extractEye_wideFace:
  "\<exists>sx sy sw sh. extractEye wideFace LEFT_EYE_INDICES 640 480 = Crop sx sy sw sh"
  "\<exists>sx sy sw sh. extractEye wideFace RIGHT_EYE_INDICES 640 480 = Crop sx sy sw sh"
proof -
  have l: "boxLoop wideFace LEFT_EYE_INDICES \<lparr>minX = 1, minY = 1, maxX = 0, maxY = 0\<rparr> =
      Some \<lparr>minX = 0, minY = 0, maxX = 1, maxY = 1\<rparr>"
    by (simp add: LEFT_EYE_INDICES_def wideFace_def growBox_def Let_def)
  have r: "boxLoop wideFace RIGHT_EYE_INDICES \<lparr>minX = 1, minY = 1, maxX = 0, maxY = 0\<rparr> =
      Some \<lparr>minX = 0, minY = 0, maxX = 1, maxY = 1\<rparr>"
    by (simp add: RIGHT_EYE_INDICES_def wideFace_def growBox_def Let_def)
  have p: "0 < fmul 1 640" "0 < fmul 1 480"
    using fl_ge_1 [of 640] fl_ge_1 [of 480] by (simp_all add: fmul_def)
  from p show "\<exists>sx sy sw sh. extractEye wideFace LEFT_EYE_INDICES 640 480 = Crop sx sy sw sh"
    by (simp add: extractEye_def l padBox_unit Let_def fsub_0)
  from p show "\<exists>sx sy sw sh. extractEye wideFace RIGHT_EYE_INDICES 640 480 = Crop sx sy sw sh"
    by (simp add: extractEye_def r padBox_unit Let_def fsub_0)
qed

lemma captureEyes_captureInput:
  "captureEyes wideFace (captureInput n) t = pushFrame (exampleFrame (2 * n) (2 * n + 1)) t"
proof -
  from extractEye_wideFace obtain sx sy sw sh sx' sy' sw' sh' where
    "extractEye wideFace LEFT_EYE_INDICES 640 480 = Crop sx sy sw sh"
    "extractEye wideFace RIGHT_EYE_INDICES 640 480 = Crop sx' sy' sw' sh'"
    by blast
  then show ?thesis
    by (simp add: captureEyes_def captureInput_def settle_def exampleFrame_def)
qed

lemma pushFrame_history_cong:
  assumes "history t = history s" and "closeLog t = closeLog s"
  shows "history (pushFrame f t) = history (pushFrame f s)"
    and "closeLog (pushFrame f t) = closeLog (pushFrame f s)"
  using assms by (simp_all add: pushFrame_def Let_def)

lemma calculateEAR_wideFace:
  "\<exists>e. calculateEAR wideFace LEFT_EYE_INDICES = Inr e"
  "\<exists>e. calculateEAR wideFace RIGHT_EYE_INDICES = Inr e"
  unfolding LEFT_EYE_INDICES_def RIGHT_EYE_INDICES_def
  by (simp_all add: calculateEAR_quad wideFace_def)

lemma onResults_captureInput:
  "history (stateOf (onResults s (captureInput n))) =
     history (pushFrame (exampleFrame (2 * n) (2 * n + 1)) s)"
  "closeLog (stateOf (onResults s (captureInput n))) =
     closeLog (pushFrame (exampleFrame (2 * n) (2 * n + 1)) s)"
proof -
  from calculateEAR_wideFace obtain l r where
    e: "calculateEAR wideFace LEFT_EYE_INDICES = Inr l"
       "calculateEAR wideFace RIGHT_EYE_INDICES = Inr r"
    by blast
  have n: "elementAt wideFace HEAD_NOSE_INDEX = Some \<lparr>px = 1 / 2, py = 1 / 2\<rparr>"
    by (simp add: HEAD_NOSE_INDEX_def wideFace_def)
  have f: "faces (captureInput n) = [wideFace]" "ready (captureInput n)"
    "sceneRandom (captureInput n) = (\<lambda>n. 0)"
    by (simp_all add: captureInput_def)
  let ?t = "blink l r (\<lambda>n. 0) (s\<lparr>targetHeadPos := \<lparr>px = fsub 1 (1 / 2), py = 1 / 2\<rparr>\<rparr>)"
  have o: "stateOf (onResults s (captureInput n)) =
      finishTick (pushFrame (exampleFrame (2 * n) (2 * n + 1)) ?t)"
    by (simp add: onResults_def f n e Let_def captureEyes_captureInput del: elementAt.simps)
  have h: "history ?t = history s" "closeLog ?t = closeLog s"
    by (simp_all add: history_blink closeLog_blink)
  show "history (stateOf (onResults s (captureInput n))) =
     history (pushFrame (exampleFrame (2 * n) (2 * n + 1)) s)"
    unfolding o history_finishTick by (rule pushFrame_history_cong(1) [OF h])
  show "closeLog (stateOf (onResults s (captureInput n))) =
     closeLog (pushFrame (exampleFrame (2 * n) (2 * n + 1)) s)"
    unfolding o closeLog_finishTick by (rule pushFrame_history_cong(2) [OF h])
qed

lemma run_captureInput:
  "n \<le> 60 \<Longrightarrow>
     history (run (initialState rnd) (map captureInput [0..<n])) =
       rev (map (\<lambda>i. exampleFrame (2 * i) (2 * i + 1)) [0..<n]) \<and>
     closeLog (run (initialState rnd) (map captureInput [0..<n])) = []"
proof (induction n)
  case 0
  show ?case by (simp add: initialState_def)
next
  case (Suc n)
  then have ih: "history (run (initialState rnd) (map captureInput [0..<n])) =
       rev (map (\<lambda>i. exampleFrame (2 * i) (2 * i + 1)) [0..<n])"
    "closeLog (run (initialState rnd) (map captureInput [0..<n])) = []"
    by simp_all
  from ih(1) Suc.prems
  have "length (history (run (initialState rnd) (map captureInput [0..<n]))) < MAX_HISTORY"
    by (simp add: MAX_HISTORY_def)
  from pushFrame_below [OF this, of "exampleFrame (2 * n) (2 * n + 1)"] ih
  show ?case by (simp add: run_snoc onResults_captureInput)
qed

lemma full_history_reachable:
  "length (history (run (initialState rnd) (map captureInput [0..<60]))) = MAX_HISTORY"
  "last (history (run (initialState rnd) (map captureInput [0..<60]))) = exampleFrame 0 1"
  "closeLog (run (initialState rnd) (map captureInput [0..<60])) = []"
proof -
  have h: "history (run (initialState rnd) (map captureInput [0..<60])) =
       rev (map (\<lambda>i. exampleFrame (2 * i) (2 * i + 1)) [0..<60])"
    and c: "closeLog (run (initialState rnd) (map captureInput [0..<60])) = []"
    using run_captureInput [of 60 rnd] by simp_all
  show "length (history (run (initialState rnd) (map captureInput [0..<60]))) = MAX_HISTORY"
    unfolding h by (simp add: MAX_HISTORY_def)
  have "[0..<60] = 0 # [1..<60]" by (simp add: upt_conv_Cons)
  then show "last (history (run (initialState rnd) (map captureInput [0..<60]))) = exampleFrame 0 1"
    unfolding h by (simp add: last_rev del: upt_Suc)
  show "closeLog (run (initialState rnd) (map captureInput [0..<60])) = []" by (rule c)
qed


section \<open>Claims\<close>

text \<open>
  C1. Every state of the history reached from the initial state has at most
  \<open>MAX_HISTORY = 60\<close> entries. A push puts the new frame at the front; when the history
  is full, exactly the last (oldest) entry is removed and \<open>close()\<close> is called on its
  two bitmaps, left then right.
\<close>

theorem history_never_exceeds_MAX_HISTORY:
  "length (history (run (initialState rnd) inps)) \<le> MAX_HISTORY \<and>
   (let s = run (initialState rnd) inps; s' = pushFrame f s in
      if length (history s) < MAX_HISTORY
      then history s' = f # history s \<and> closeLog s' = closeLog s
      else (\<exists>l r. image (leftEye (last (history s))) = Some l \<and>
                  image (rightEye (last (history s))) = Some r \<and>
                  history s' = f # butlast (history s) \<and>
                  length (history s') = MAX_HISTORY \<and>
                  closeLog s' = closeLog s @ [l, r]))"
proof -
  let ?s = "run (initialState rnd) inps"
  have b: "bounded ?s" by (simp add: bounded_run bounded_initialState)
  then have len: "length (history ?s) \<le> MAX_HISTORY" by (simp add: bounded_def)
  show ?thesis
  proof (cases "length (history ?s) < MAX_HISTORY")
    case True
    with len pushFrame_below [OF True, of f] show ?thesis by (simp add: Let_def)
  next
    case False
    with len have full: "length (history ?s) = MAX_HISTORY" by simp
    from framed_last [OF b full] obtain l r where
      lr: "image (leftEye (last (history ?s))) = Some l" "image (rightEye (last (history ?s))) = Some r"
      by blast
    from pushFrame_full [OF full, of f] lr full len False show ?thesis
      by (simp add: Let_def closes_def MAX_HISTORY_def)
  qed
qed

theorem history_never_exceeds_MAX_HISTORY_witness:
  "length (history (run (initialState (\<lambda>n. 0)) (map captureInput [0..<60]))) = MAX_HISTORY \<and>
   closeLog (run (initialState (\<lambda>n. 0)) (map captureInput [0..<60])) = [] \<and>
   history (pushFrame (exampleFrame 120 121)
      (run (initialState (\<lambda>n. 0)) (map captureInput [0..<60]))) =
     exampleFrame 120 121 #
       butlast (history (run (initialState (\<lambda>n. 0)) (map captureInput [0..<60]))) \<and>
   length (history (pushFrame (exampleFrame 120 121)
      (run (initialState (\<lambda>n. 0)) (map captureInput [0..<60])))) = MAX_HISTORY \<and>
   closeLog (pushFrame (exampleFrame 120 121)
      (run (initialState (\<lambda>n. 0)) (map captureInput [0..<60]))) = [0, 1]"
proof -
  define s where "s = run (initialState (\<lambda>n. 0)) (map captureInput [0..<60])"
  have full: "length (history s) = MAX_HISTORY" "last (history s) = exampleFrame 0 1"
    "closeLog s = []"
    unfolding s_def by (rule full_history_reachable)+
  have "\<not> length (history s) < MAX_HISTORY" using full(1) by simp
  with history_never_exceeds_MAX_HISTORY [of "\<lambda>n. 0" "map captureInput [0..<60]"
      "exampleFrame 120 121", folded s_def]
  obtain l r where lr: "image (leftEye (last (history s))) = Some l"
      "image (rightEye (last (history s))) = Some r"
    and p: "history (pushFrame (exampleFrame 120 121) s) =
        exampleFrame 120 121 # butlast (history s)"
      "length (history (pushFrame (exampleFrame 120 121) s)) = MAX_HISTORY"
      "closeLog (pushFrame (exampleFrame 120 121) s) = closeLog s @ [l, r]"
    by (auto simp add: Let_def)
  from lr have "l = 0" "r = 1" unfolding full(2) by (simp_all add: exampleFrame_def)
  with p full show ?thesis unfolding s_def [symmetric] by simp
qed


text \<open>
  C2. For a history of length \<open>L\<close> and a delay that is not negative, the compositor's
  lookup returns the entry at index \<open>min delay (L - 1)\<close> when \<open>L \<ge> 1\<close>; on an empty
  history it returns nothing and no shape is placed.
\<close>

theorem historyLookup_clamps:
  "0 \<le> delay \<Longrightarrow>
     (h \<noteq> [] \<longrightarrow> nat (min delay (int (length h) - 1)) < length h \<and>
        historyLookup h delay = Some (h ! nat (min delay (int (length h) - 1)))) \<and>
     (h = [] \<longrightarrow> historyLookup h delay = None \<and> placedShapes params h = [])"
  by (cases h) (auto simp add: historyLookup_def placedShapes_def Let_def min_def)

theorem historyLookup_clamps_witness:
  "(0::int) \<le> 5 \<and>
   historyLookup [exampleFrame 1 2, exampleFrame 3 4] 5 = Some (exampleFrame 3 4) \<and>
   historyLookup [exampleFrame 1 2, exampleFrame 3 4] 0 = Some (exampleFrame 1 2) \<and>
   historyLookup [] 5 = None"
  using historyLookup_clamps [of 5 "[exampleFrame 1 2, exampleFrame 3 4]"]
    historyLookup_clamps [of 0 "[exampleFrame 1 2, exampleFrame 3 4]"]
    historyLookup_clamps [of 5 "[]"]
  by simp

text \<open>
  C3, as amended. From a cooldown of zero, with both eye aspect ratios below
  \<open>BLINK_THRESHOLD\<close> on 30 consecutive ticks, a reset fires on the first tick and again
  on the 26th: after a trigger the cooldown blocks the next 24 ticks, and lets the 25th
  tick after it trigger again. The number of resets after \<open>k\<close> ticks is 1 for \<open>k\<close> from
  1 to 25 and 2 for \<open>k\<close> from 26 to 30. The counterexample shows the two resets of 30
  ticks, where the claim says exactly one.
\<close>

theorem held_blink_resets_on_ticks_1_and_26:
  assumes "length inps = 30" and "\<forall>inp \<in> set inps. blinking inp" and "blinkCooldown s = 0"
  shows "\<forall>k \<le> 30. resetCount (run s (take k inps)) =
           resetCount s + (if k = 0 then 0 else if k \<le> 25 then 1 else 2)"
proof (intro allI impI)
  fix k :: nat
  assume k: "k \<le> 30"
  show "resetCount (run s (take k inps)) =
          resetCount s + (if k = 0 then 0 else if k \<le> 25 then 1 else 2)"
  proof (cases k)
    case 0
    then show ?thesis by simp
  next
    case (Suc m)
    have all: "\<forall>inp \<in> set (take k inps). blinking inp"
      using assms(2) by (auto dest: in_set_takeD)
    have len: "length (take k inps) = Suc m"
      using assms(1) k Suc by simp
    from run_blinking [OF all assms(3) len] resets_upto_30 [OF k Suc] Suc
    show ?thesis by simp
  qed
qed

theorem held_blink_resets_on_ticks_1_and_26_witness:
  "length (replicate 30 blinkInput) = 30 \<and> blinking blinkInput \<and>
   blinkCooldown (initialState (\<lambda>n. 0)) = 0 \<and>
   resetCount (run (initialState (\<lambda>n. 0)) (replicate 1 blinkInput)) = 1 \<and>
   resetCount (run (initialState (\<lambda>n. 0)) (replicate 25 blinkInput)) = 1 \<and>
   resetCount (run (initialState (\<lambda>n. 0)) (replicate 26 blinkInput)) = 2 \<and>
   resetCount (run (initialState (\<lambda>n. 0)) (replicate 30 blinkInput)) = 2"
proof -
  have a: "\<forall>inp \<in> set (replicate 30 blinkInput). blinking inp"
    by (simp add: blinking_blinkInput)
  have c: "blinkCooldown (initialState (\<lambda>n. 0)) = 0" "resetCount (initialState (\<lambda>n. 0)) = 0"
    by (simp_all add: initialState_def)
  note t = held_blink_resets_on_ticks_1_and_26 [OF _ a c(1), simplified, rule_format]
  from t [of 1] t [of 25] t [of 26] t [of 30] c blinking_blinkInput show ?thesis
    by simp
qed

theorem held_blink_second_reset_counterexample:
  "blinking blinkInput \<and> blinkCooldown (initialState (\<lambda>n. 0)) = 0 \<and>
   resetCount (initialState (\<lambda>n. 0)) = 0 \<and>
   resetCount (run (initialState (\<lambda>n. 0)) (replicate 30 blinkInput)) = 2"
proof -
  have a: "\<forall>inp \<in> set (replicate 30 blinkInput). blinking inp"
    by (simp add: blinking_blinkInput)
  have c: "blinkCooldown (initialState (\<lambda>n. 0)) = 0" "resetCount (initialState (\<lambda>n. 0)) = 0"
    by (simp_all add: initialState_def)
  from run_blinking [OF a c(1), of 29] c blinking_blinkInput show ?thesis by simp
qed

text \<open>
  C4, as amended. From a cooldown of zero, three consecutive ticks with both eye aspect
  ratios below the threshold (the example has both equal to the double 0.10) generate exactly one
  new scene, on the first tick; the cooldown is 22 after the third tick (25 is set and
  decremented in the first tick already, where the claim says 23); and the flash after
  the third render is 1.0 multiplied three times by 0.85.
\<close>

theorem three_blink_ticks:
  assumes "blinking i1" and "blinking i2" and "blinking i3" and "blinkCooldown s = 0"
  shows "resetCount (run s [i1, i2, i3]) = resetCount s + 1 \<and>
         sceneParams (run s [i1, i2, i3]) = generateNewScene (sceneRandom i1) \<and>
         blinkCooldown (run s [i1, i2, i3]) = 22 \<and>
         resetFlash (run s [i1, i2, i3]) =
           fmul (fmul (fmul 1 (D (85 / 100))) (D (85 / 100))) (D (85 / 100))"
  using three_ticks [OF assms] by (simp only: decayFlash_thrice)

theorem three_blink_ticks_witness:
  "blinking blinkInput \<and>
   calculateEAR blinkFace LEFT_EYE_INDICES = Inr (Fin (D (1 / 10))) \<and>
   calculateEAR blinkFace RIGHT_EYE_INDICES = Inr (Fin (D (1 / 10))) \<and>
   blinkCooldown (initialState (\<lambda>n. 0)) = 0 \<and>
   resetCount (run (initialState (\<lambda>n. 0)) [blinkInput, blinkInput, blinkInput]) = 1 \<and>
   sceneParams (run (initialState (\<lambda>n. 0)) [blinkInput, blinkInput, blinkInput]) =
     generateNewScene (\<lambda>n. 0) \<and>
   blinkCooldown (run (initialState (\<lambda>n. 0)) [blinkInput, blinkInput, blinkInput]) = 22 \<and>
   resetFlash (run (initialState (\<lambda>n. 0)) [blinkInput, blinkInput, blinkInput]) =
     fmul (fmul (fmul 1 (D (85 / 100))) (D (85 / 100))) (D (85 / 100))"
proof -
  have c: "blinkCooldown (initialState (\<lambda>n. 0)) = 0" "resetCount (initialState (\<lambda>n. 0)) = 0"
    by (simp_all add: initialState_def)
  have r: "sceneRandom blinkInput = (\<lambda>n. 0)" by (simp add: blinkInput_def)
  from three_blink_ticks [OF blinking_blinkInput blinking_blinkInput blinking_blinkInput c(1)]
    c r blinking_blinkInput calculateEAR_blinkFace
  show ?thesis by (simp only: add_0 One_nat_def [symmetric])
qed

theorem three_blink_ticks_cooldown_counterexample:
  "blinking blinkInput \<and>
   calculateEAR blinkFace LEFT_EYE_INDICES = Inr (Fin (D (1 / 10))) \<and>
   calculateEAR blinkFace RIGHT_EYE_INDICES = Inr (Fin (D (1 / 10))) \<and>
   blinkCooldown (initialState (\<lambda>n. 0)) = 0 \<and>
   blinkCooldown (run (initialState (\<lambda>n. 0)) [blinkInput, blinkInput, blinkInput]) \<noteq> 23"
proof -
  have c: "blinkCooldown (initialState (\<lambda>n. 0)) = 0"
    by (simp add: initialState_def)
  from three_ticks(3) [OF blinking_blinkInput blinking_blinkInput blinking_blinkInput c]
    c blinking_blinkInput calculateEAR_blinkFace
  show ?thesis by simp
qed
text \<open>
  C5, as amended. For every sequence of draws of \<open>Math.random()\<close> (doubles that are at
  least 0 and less than 1), \<open>generateNewScene\<close> produces between 20 and 35 shapes, 35
  included; the shape at index 0 is the focal one, at (0.5, 0.5) with a scale from 1.8
  to 2.5, 2.5 included; every other shape has both position components in [0.05, 0.95)
  and a scale in [0.3, 1.4), so it is not focal; and every shape has an integer
  \<open>delayFrames\<close> in [2, 45) and a \<open>glitchIntensity\<close> in [0.1, 0.9). The bounds are the
  doubles of the decimal literals. The claim's upper bounds on the count and on the
  focal scale are exclusive; the rounding of \<open>Math.random() * (max - min) + min\<close> reaches
  both.
\<close>

theorem generateNewScene_ranges:
  assumes "\<forall>n. draw (rnd n)"
  shows "20 \<le> length (shapes (generateNewScene rnd)) \<and>
         length (shapes (generateNewScene rnd)) \<le> 35 \<and>
         focalShape (shapes (generateNewScene rnd) ! 0) \<and>
         (\<forall>i. 0 < i \<and> i < length (shapes (generateNewScene rnd)) \<longrightarrow>
            fragmentShape (shapes (generateNewScene rnd) ! i) \<and>
            \<not> focalShape (shapes (generateNewScene rnd) ! i)) \<and>
         (\<forall>i < length (shapes (generateNewScene rnd)).
            delayedShape (shapes (generateNewScene rnd) ! i))"
proof -
  let ?Q = "\<lambda>j s. (j = 0 \<longrightarrow> focalShape s) \<and>
                    (0 < j \<longrightarrow> fragmentShape s \<and> \<not> focalShape s) \<and> delayedShape s"
  have "\<forall>palette j k. ?Q (j::nat) (fst (newShape palette rnd j k))"
    using newShape_focal [OF assms] newShape_fragment [OF assms] newShape_delayed [OF assms]
      fragment_not_focal by blast
  from generateNewScene_shapes [OF assms, of ?Q, OF this]
  have l: "20 \<le> length (shapes (generateNewScene rnd))"
      "length (shapes (generateNewScene rnd)) \<le> 35"
    and q: "\<forall>n < length (shapes (generateNewScene rnd)).
              ?Q n (shapes (generateNewScene rnd) ! n)"
    by blast+
  from l(1) have "0 < length (shapes (generateNewScene rnd))" by linarith
  with q have "focalShape (shapes (generateNewScene rnd) ! 0)" by blast
  with l q show ?thesis by blast
qed

theorem generateNewScene_ranges_witness:
  "(\<forall>n. draw ((\<lambda>n. 0) n)) \<and>
   20 \<le> length (shapes (generateNewScene (\<lambda>n. 0))) \<and>
   length (shapes (generateNewScene (\<lambda>n. 0))) \<le> 35 \<and>
   focalShape (shapes (generateNewScene (\<lambda>n. 0)) ! 0) \<and>
   fragmentShape (shapes (generateNewScene (\<lambda>n. 0)) ! 1) \<and>
   \<not> focalShape (shapes (generateNewScene (\<lambda>n. 0)) ! 1) \<and>
   delayedShape (shapes (generateNewScene (\<lambda>n. 0)) ! 0) \<and>
   delayedShape (shapes (generateNewScene (\<lambda>n. 0)) ! 19)"
proof -
  have d: "\<forall>n. draw ((\<lambda>n. 0) n)" by (simp add: draw_0)
  from generateNewScene_ranges [OF d]
  have l: "20 \<le> length (shapes (generateNewScene (\<lambda>n. 0)))"
      "length (shapes (generateNewScene (\<lambda>n. 0))) \<le> 35"
      "focalShape (shapes (generateNewScene (\<lambda>n. 0)) ! 0)"
    and f: "\<forall>i. 0 < i \<and> i < length (shapes (generateNewScene (\<lambda>n. 0))) \<longrightarrow>
              fragmentShape (shapes (generateNewScene (\<lambda>n. 0)) ! i) \<and>
              \<not> focalShape (shapes (generateNewScene (\<lambda>n. 0)) ! i)"
    and g: "\<forall>i < length (shapes (generateNewScene (\<lambda>n. 0))).
              delayedShape (shapes (generateNewScene (\<lambda>n. 0)) ! i)"
    by blast+
  from l(1) have "(0::nat) < 1 \<and> 1 < length (shapes (generateNewScene (\<lambda>n. 0)))"
    and "0 < length (shapes (generateNewScene (\<lambda>n. 0)))"
    and "19 < length (shapes (generateNewScene (\<lambda>n. 0)))"
    by linarith+
  with f g have "fragmentShape (shapes (generateNewScene (\<lambda>n. 0)) ! 1)"
    and "\<not> focalShape (shapes (generateNewScene (\<lambda>n. 0)) ! 1)"
    and "delayedShape (shapes (generateNewScene (\<lambda>n. 0)) ! 0)"
    and "delayedShape (shapes (generateNewScene (\<lambda>n. 0)) ! 19)"
    by blast+
  with d l show ?thesis by blast
qed

theorem generateNewScene_upper_bounds_counterexample:
  "(\<forall>n. draw (drawsAt 1 (1 - 1 / 2 ^ 53) 4 (1 - 1 / 2 ^ 53) n)) \<and>
   length (shapes (generateNewScene (drawsAt 1 (1 - 1 / 2 ^ 53) 4 (1 - 1 / 2 ^ 53)))) = 35 \<and>
   \<not> length (shapes (generateNewScene (drawsAt 1 (1 - 1 / 2 ^ 53) 4 (1 - 1 / 2 ^ 53)))) < 35 \<and>
   shape_scale (shapes (generateNewScene (drawsAt 1 (1 - 1 / 2 ^ 53) 4 (1 - 1 / 2 ^ 53))) ! 0) =
     D (25 / 10) \<and>
   \<not> shape_scale (shapes (generateNewScene (drawsAt 1 (1 - 1 / 2 ^ 53) 4 (1 - 1 / 2 ^ 53))) ! 0) <
     D (25 / 10)"
proof -
  let ?r = "drawsAt 1 (1 - 1 / 2 ^ 53) 4 (1 - 1 / 2 ^ 53)"
  have d: "\<forall>n. draw (?r n)" using draw_drawsAt [OF draw_top draw_top] by blast
  have r1: "?r 1 = 1 - 1 / 2 ^ 53" and r4: "?r (2 + 2) = 1 - 1 / 2 ^ 53"
    by (simp_all add: drawsAt_def)
  have l: "length (shapes (generateNewScene ?r)) = 35"
    unfolding length_generateNewScene r1 randomRange_count_top by simp
  have "draw (?r 1)" using d by blast
  from generateNewScene_first [of ?r, OF this]
  have "shape_scale (shapes (generateNewScene ?r) ! 0) =
          randomRange (?r (2 + 2)) (D (18 / 10)) (D (25 / 10))"
    by (simp add: newShape_def)
  also have "\<dots> = 5 / 2 ^ 1" unfolding r4 by (rule randomRange_focal_top)
  also have "\<dots> = D (25 / 10)" by (simp only: D_focal_hi)
  finally have s: "shape_scale (shapes (generateNewScene ?r) ! 0) = D (25 / 10)" .
  from d l s show ?thesis by simp
qed





text \<open>
  C7. From any flash intensity in (0, 1], the update of each render (multiply by 0.85
  above the threshold 0.001, else set to 0) never increases the value, keeps it
  non-negative, and has set it to exactly 0 after at most 44 renders, where it stays.
  From 1.0 the value is still positive after 43 renders: 43 multiplications bring it
  below the threshold and the 44th render sets it to 0.
\<close>

theorem resetFlash_decays_to_zero:
  assumes "0 < resetFlash s" and "resetFlash s \<le> 1"
  shows "(\<forall>n. resetFlash ((renderScene ^^ Suc n) s) \<le> resetFlash ((renderScene ^^ n) s)) \<and>
         (\<forall>n. 0 \<le> resetFlash ((renderScene ^^ n) s)) \<and>
         (\<forall>n \<ge> 44. resetFlash ((renderScene ^^ n) s) = 0) \<and>
         (resetFlash s = 1 \<longrightarrow> 0 < resetFlash ((renderScene ^^ 43) s))"
proof (intro conjI allI impI)
  have x: "0 \<le> resetFlash s" using assms(1) by simp
  fix n
  from decay_iterates [OF x assms(2), of n]
  have y: "0 \<le> (decayFlash ^^ n) (resetFlash s)" "(decayFlash ^^ n) (resetFlash s) \<le> 1"
    by simp_all
  have "resetFlash ((renderScene ^^ Suc n) s) = decayFlash ((decayFlash ^^ n) (resetFlash s))"
    using resetFlash_renderScene [of "Suc n" s] by simp
  with decayFlash_le [OF y]
  show "resetFlash ((renderScene ^^ Suc n) s) \<le> resetFlash ((renderScene ^^ n) s)"
    by (simp only: resetFlash_renderScene)
  from y(1) show "0 \<le> resetFlash ((renderScene ^^ n) s)"
    by (simp only: resetFlash_renderScene)
  assume "44 \<le> n"
  from decay_after_44 [OF x assms(2) this]
  show "resetFlash ((renderScene ^^ n) s) = 0"
    by (simp only: resetFlash_renderScene)
next
  assume "resetFlash s = 1"
  with decay_43_from_1 show "0 < resetFlash ((renderScene ^^ 43) s)"
    by (simp only: resetFlash_renderScene)
qed

theorem resetFlash_decays_to_zero_witness:
  "(0::real) < resetFlash (resetScene (\<lambda>n. 0) (initialState (\<lambda>n. 0))) \<and>
   resetFlash (resetScene (\<lambda>n. 0) (initialState (\<lambda>n. 0))) \<le> 1 \<and>
   resetFlash ((renderScene ^^ 1) (resetScene (\<lambda>n. 0) (initialState (\<lambda>n. 0)))) \<le> 1 \<and>
   0 < resetFlash ((renderScene ^^ 43) (resetScene (\<lambda>n. 0) (initialState (\<lambda>n. 0)))) \<and>
   resetFlash ((renderScene ^^ 44) (resetScene (\<lambda>n. 0) (initialState (\<lambda>n. 0)))) = 0"
proof -
  have f: "resetFlash (resetScene (\<lambda>n. 0) (initialState (\<lambda>n. 0))) = 1"
    by (simp add: resetScene_def)
  then have a: "0 < resetFlash (resetScene (\<lambda>n. 0) (initialState (\<lambda>n. 0)))"
    "resetFlash (resetScene (\<lambda>n. 0) (initialState (\<lambda>n. 0))) \<le> 1" by simp_all
  note t = resetFlash_decays_to_zero [OF a]
  from t have r1: "resetFlash ((renderScene ^^ Suc 0) (resetScene (\<lambda>n. 0) (initialState (\<lambda>n. 0)))) \<le>
      resetFlash ((renderScene ^^ 0) (resetScene (\<lambda>n. 0) (initialState (\<lambda>n. 0))))" by blast
  from t f have r2: "0 < resetFlash ((renderScene ^^ 43) (resetScene (\<lambda>n. 0) (initialState (\<lambda>n. 0))))"
    by blast
  from t have r3: "resetFlash ((renderScene ^^ 44) (resetScene (\<lambda>n. 0) (initialState (\<lambda>n. 0)))) = 0"
    by blast
  from r1 f have r4: "resetFlash ((renderScene ^^ 1) (resetScene (\<lambda>n. 0) (initialState (\<lambda>n. 0)))) \<le> 1"
    by simp
  from a r4 r2 r3 show ?thesis by blast
qed


text \<open>
  C9, as amended. For a non-empty index list whose landmarks exist and whose bounding
  box begins at or before 1 and ends at or after 0 on both axes (as it does for
  landmarks with normalized coordinates in the unit square), \<open>extractEye\<close> takes the
  bounding box, pads it on both sides by 60 percent of its width on x and by its
  height on y, clamps it to the unit square, scales it by the frame's width and height,
  and returns \<open>null\<close> exactly when the pixel width or the pixel height is not positive.
  In a tick where an extraction is \<open>null\<close> nothing is pushed and nothing is closed, and
  the callback runs to its end: the head target is set, the blink trigger is evaluated,
  the cooldown is decremented, the head position is smoothed and the render decays the
  flash. The claim states this for every landmark set; the loop starts its running
  minimum at 1 and its maximum at 0, and the counterexample is a face below the frame,
  whose bounding box gives no crop while the code crops the whole frame.
\<close>

theorem extractEye_pads_and_clamps_bounding_box:
  assumes "indices \<noteq> []" and "\<forall>i \<in> set indices. i < length landmarks"
    and "minX (boundingBox landmarks indices) \<le> 1" and "0 \<le> maxX (boundingBox landmarks indices)"
    and "minY (boundingBox landmarks indices) \<le> 1" and "0 \<le> maxY (boundingBox landmarks indices)"
  shows
    "(let b0 = boundingBox landmarks indices;
          paddingX = fmul (fsub (maxX b0) (minX b0)) (D (6 / 10));
          paddingY = fsub (maxY b0) (minY b0);
          x0 = max 0 (fsub (minX b0) paddingX);
          x1 = min 1 (fadd (maxX b0) paddingX);
          y0 = max 0 (fsub (minY b0) paddingY);
          y1 = min 1 (fadd (maxY b0) paddingY);
          sw = fmul (fsub x1 x0) w;
          sh = fmul (fsub y1 y0) h
      in extractEye landmarks indices w h =
           (if sw \<le> 0 \<or> sh \<le> 0 then NoCrop else Crop (fmul x0 w) (fmul y0 h) sw sh) \<and>
         (extractEye landmarks indices w h = NoCrop \<longleftrightarrow> sw \<le> 0 \<or> sh \<le> 0)) \<and>
     extractEye landmarks indices w h = boundingBoxCrop landmarks indices w h \<and>
     (\<forall>s inp others nose leftEAR rightEAR.
        ready inp \<and> faces inp = landmarks # others \<and>
        elementAt landmarks HEAD_NOSE_INDEX = Some nose \<and>
        calculateEAR landmarks LEFT_EYE_INDICES = Inr leftEAR \<and>
        calculateEAR landmarks RIGHT_EYE_INDICES = Inr rightEAR \<and>
        (extractEye landmarks LEFT_EYE_INDICES (videoWidth inp) (videoHeight inp) = NoCrop \<or>
         extractEye landmarks RIGHT_EYE_INDICES (videoWidth inp) (videoHeight inp) = NoCrop) \<longrightarrow>
        (\<exists>s'. onResults s inp = Completed s') \<and>
        history (stateOf (onResults s inp)) = history s \<and>
        closeLog (stateOf (onResults s inp)) = closeLog s \<and>
        targetHeadPos (stateOf (onResults s inp)) = \<lparr>px = fsub 1 (px nose), py = py nose\<rparr> \<and>
        headPos (stateOf (onResults s inp)) =
          \<lparr>px = lerp (px (headPos s)) (fsub 1 (px nose)) (D (8 / 100)),
           py = lerp (py (headPos s)) (py nose) (D (8 / 100))\<rparr> \<and>
        blinkCooldown (stateOf (onResults s inp)) =
          (if less_number leftEAR BLINK_THRESHOLD \<and> less_number rightEAR BLINK_THRESHOLD \<and>
              blinkCooldown s \<le> 0
           then 24 else if blinkCooldown s > 0 then blinkCooldown s - 1 else blinkCooldown s) \<and>
        resetFlash (stateOf (onResults s inp)) =
          decayFlash
            (if less_number leftEAR BLINK_THRESHOLD \<and> less_number rightEAR BLINK_THRESHOLD \<and>
                blinkCooldown s \<le> 0
             then 1 else resetFlash s) \<and>
        sceneParams (stateOf (onResults s inp)) =
          (if less_number leftEAR BLINK_THRESHOLD \<and> less_number rightEAR BLINK_THRESHOLD \<and>
              blinkCooldown s \<le> 0
           then generateNewScene (sceneRandom inp) else sceneParams s) \<and>
        resetCount (stateOf (onResults s inp)) =
          (if less_number leftEAR BLINK_THRESHOLD \<and> less_number rightEAR BLINK_THRESHOLD \<and>
              blinkCooldown s \<le> 0
           then Suc (resetCount s) else resetCount s))"
proof (intro conjI allI impI)
  show "let b0 = boundingBox landmarks indices;
          paddingX = fmul (fsub (maxX b0) (minX b0)) (D (6 / 10));
          paddingY = fsub (maxY b0) (minY b0);
          x0 = max 0 (fsub (minX b0) paddingX);
          x1 = min 1 (fadd (maxX b0) paddingX);
          y0 = max 0 (fsub (minY b0) paddingY);
          y1 = min 1 (fadd (maxY b0) paddingY);
          sw = fmul (fsub x1 x0) w;
          sh = fmul (fsub y1 y0) h
      in extractEye landmarks indices w h =
           (if sw \<le> 0 \<or> sh \<le> 0 then NoCrop else Crop (fmul x0 w) (fmul y0 h) sw sh) \<and>
         (extractEye landmarks indices w h = NoCrop \<longleftrightarrow> sw \<le> 0 \<or> sh \<le> 0)"
    by (simp add: extractEye_eq [OF assms] padBox_def Let_def fmul_fsub_1)
  show "extractEye landmarks indices w h = boundingBoxCrop landmarks indices w h"
    by (simp add: extractEye_eq [OF assms] boundingBoxCrop_def padBox_def Let_def fmul_fsub_1)
next
  fix s :: MirrorState and inp :: TickInput and others nose leftEAR rightEAR
  assume a: "ready inp \<and> faces inp = landmarks # others \<and>
        elementAt landmarks HEAD_NOSE_INDEX = Some nose \<and>
        calculateEAR landmarks LEFT_EYE_INDICES = Inr leftEAR \<and>
        calculateEAR landmarks RIGHT_EYE_INDICES = Inr rightEAR \<and>
        (extractEye landmarks LEFT_EYE_INDICES (videoWidth inp) (videoHeight inp) = NoCrop \<or>
         extractEye landmarks RIGHT_EYE_INDICES (videoWidth inp) (videoHeight inp) = NoCrop)"
  then have r: "ready inp" and f: "faces inp = landmarks # others"
    and n: "elementAt landmarks HEAD_NOSE_INDEX = Some nose"
    and l: "calculateEAR landmarks LEFT_EYE_INDICES = Inr leftEAR"
    and rr: "calculateEAR landmarks RIGHT_EYE_INDICES = Inr rightEAR"
    and x: "extractEye landmarks LEFT_EYE_INDICES (videoWidth inp) (videoHeight inp) = NoCrop \<or>
         extractEye landmarks RIGHT_EYE_INDICES (videoWidth inp) (videoHeight inp) = NoCrop"
    by simp_all
  note t = onResults_null_crop [OF r f n l rr x]
  from t(1) [of s] show "\<exists>s'. onResults s inp = Completed s'" by blast
  show "history (stateOf (onResults s inp)) = history s" by (rule t(2))
  show "closeLog (stateOf (onResults s inp)) = closeLog s" by (rule t(3))
  show "targetHeadPos (stateOf (onResults s inp)) = \<lparr>px = fsub 1 (px nose), py = py nose\<rparr>"
    by (rule t(4))
  show "headPos (stateOf (onResults s inp)) =
          \<lparr>px = lerp (px (headPos s)) (fsub 1 (px nose)) (D (8 / 100)),
           py = lerp (py (headPos s)) (py nose) (D (8 / 100))\<rparr>"
    by (rule t(5))
  show "blinkCooldown (stateOf (onResults s inp)) =
          (if less_number leftEAR BLINK_THRESHOLD \<and> less_number rightEAR BLINK_THRESHOLD \<and>
              blinkCooldown s \<le> 0
           then 24 else if blinkCooldown s > 0 then blinkCooldown s - 1 else blinkCooldown s)"
    by (rule t(6))
  show "resetFlash (stateOf (onResults s inp)) =
          decayFlash
            (if less_number leftEAR BLINK_THRESHOLD \<and> less_number rightEAR BLINK_THRESHOLD \<and>
                blinkCooldown s \<le> 0
             then 1 else resetFlash s)"
    by (rule t(7))
  show "sceneParams (stateOf (onResults s inp)) =
          (if less_number leftEAR BLINK_THRESHOLD \<and> less_number rightEAR BLINK_THRESHOLD \<and>
              blinkCooldown s \<le> 0
           then generateNewScene (sceneRandom inp) else sceneParams s)"
    by (rule t(8))
  show "resetCount (stateOf (onResults s inp)) =
          (if less_number leftEAR BLINK_THRESHOLD \<and> less_number rightEAR BLINK_THRESHOLD \<and>
              blinkCooldown s \<le> 0
           then Suc (resetCount s) else resetCount s)"
    by (rule t(9))
qed

theorem extractEye_pads_and_clamps_bounding_box_witness:
  "RIGHT_EYE_INDICES \<noteq> [] \<and>
   boundingBox oneEyeFace RIGHT_EYE_INDICES = \<lparr>minX = 1 / 2, minY = 1 / 2, maxX = 1 / 2, maxY = 1 / 2\<rparr> \<and>
   extractEye oneEyeFace RIGHT_EYE_INDICES 640 480 = NoCrop \<and>
   boundingBoxCrop oneEyeFace RIGHT_EYE_INDICES 640 480 = NoCrop \<and>
   (\<exists>s'. onResults ((initialState (\<lambda>n. 0))\<lparr>blinkCooldown := 3, resetFlash := 1\<rparr>) oneEyeInput =
           Completed s') \<and>
   history (stateOf (onResults ((initialState (\<lambda>n. 0))\<lparr>blinkCooldown := 3, resetFlash := 1\<rparr>)
      oneEyeInput)) = [] \<and>
   blinkCooldown (stateOf (onResults ((initialState (\<lambda>n. 0))\<lparr>blinkCooldown := 3, resetFlash := 1\<rparr>)
      oneEyeInput)) = 2 \<and>
   resetFlash (stateOf (onResults ((initialState (\<lambda>n. 0))\<lparr>blinkCooldown := 3, resetFlash := 1\<rparr>)
      oneEyeInput)) = fmul 1 (D (85 / 100)) \<and>
   targetHeadPos (stateOf (onResults ((initialState (\<lambda>n. 0))\<lparr>blinkCooldown := 3, resetFlash := 1\<rparr>)
      oneEyeInput)) = \<lparr>px = 1 / 2, py = 1 / 2\<rparr>"
proof -
  let ?s = "(initialState (\<lambda>n. 0))\<lparr>blinkCooldown := 3, resetFlash := 1\<rparr>"
  have ne: "RIGHT_EYE_INDICES \<noteq> []" by (simp add: RIGHT_EYE_INDICES_def)
  have bb: "boundingBox oneEyeFace RIGHT_EYE_INDICES =
      \<lparr>minX = 1 / 2, minY = 1 / 2, maxX = 1 / 2, maxY = 1 / 2\<rparr>"
    by (simp add: boundingBox_def RIGHT_EYE_INDICES_def oneEyeFace_def)
  have fr: "minX (boundingBox oneEyeFace RIGHT_EYE_INDICES) \<le> 1"
    "0 \<le> maxX (boundingBox oneEyeFace RIGHT_EYE_INDICES)"
    "minY (boundingBox oneEyeFace RIGHT_EYE_INDICES) \<le> 1"
    "0 \<le> maxY (boundingBox oneEyeFace RIGHT_EYE_INDICES)"
    unfolding bb by simp_all
  note t = extractEye_pads_and_clamps_bounding_box [OF ne indices_oneEyeFace fr, of 640 480]
  from t have x: "extractEye oneEyeFace RIGHT_EYE_INDICES 640 480 = NoCrop"
    by (simp add: bb Let_def fsub_self fmul_0 fsub_0)
  from t have "extractEye oneEyeFace RIGHT_EYE_INDICES 640 480 =
      boundingBoxCrop oneEyeFace RIGHT_EYE_INDICES 640 480" by blast
  with x have xc: "boundingBoxCrop oneEyeFace RIGHT_EYE_INDICES 640 480 = NoCrop" by simp
  have pre: "ready oneEyeInput \<and> faces oneEyeInput = oneEyeFace # [] \<and>
      elementAt oneEyeFace HEAD_NOSE_INDEX = Some \<lparr>px = 1 / 2, py = 1 / 2\<rparr> \<and>
      calculateEAR oneEyeFace LEFT_EYE_INDICES = Inr (Fin 0) \<and>
      calculateEAR oneEyeFace RIGHT_EYE_INDICES = Inr NaN \<and>
      (extractEye oneEyeFace LEFT_EYE_INDICES (videoWidth oneEyeInput) (videoHeight oneEyeInput) = NoCrop \<or>
       extractEye oneEyeFace RIGHT_EYE_INDICES (videoWidth oneEyeInput) (videoHeight oneEyeInput) = NoCrop)"
    using x calculateEAR_oneEyeFace
    by (simp add: oneEyeInput_def oneEyeFace_def HEAD_NOSE_INDEX_def)
  from t have u: "\<forall>s inp others nose leftEAR rightEAR.
        ready inp \<and> faces inp = oneEyeFace # others \<and>
        elementAt oneEyeFace HEAD_NOSE_INDEX = Some nose \<and>
        calculateEAR oneEyeFace LEFT_EYE_INDICES = Inr leftEAR \<and>
        calculateEAR oneEyeFace RIGHT_EYE_INDICES = Inr rightEAR \<and>
        (extractEye oneEyeFace LEFT_EYE_INDICES (videoWidth inp) (videoHeight inp) = NoCrop \<or>
         extractEye oneEyeFace RIGHT_EYE_INDICES (videoWidth inp) (videoHeight inp) = NoCrop) \<longrightarrow>
        (\<exists>s'. onResults s inp = Completed s') \<and>
        history (stateOf (onResults s inp)) = history s \<and>
        closeLog (stateOf (onResults s inp)) = closeLog s \<and>
        targetHeadPos (stateOf (onResults s inp)) = \<lparr>px = fsub 1 (px nose), py = py nose\<rparr> \<and>
        headPos (stateOf (onResults s inp)) =
          \<lparr>px = lerp (px (headPos s)) (fsub 1 (px nose)) (D (8 / 100)),
           py = lerp (py (headPos s)) (py nose) (D (8 / 100))\<rparr> \<and>
        blinkCooldown (stateOf (onResults s inp)) =
          (if less_number leftEAR BLINK_THRESHOLD \<and> less_number rightEAR BLINK_THRESHOLD \<and>
              blinkCooldown s \<le> 0
           then 24 else if blinkCooldown s > 0 then blinkCooldown s - 1 else blinkCooldown s) \<and>
        resetFlash (stateOf (onResults s inp)) =
          decayFlash
            (if less_number leftEAR BLINK_THRESHOLD \<and> less_number rightEAR BLINK_THRESHOLD \<and>
                blinkCooldown s \<le> 0
             then 1 else resetFlash s) \<and>
        sceneParams (stateOf (onResults s inp)) =
          (if less_number leftEAR BLINK_THRESHOLD \<and> less_number rightEAR BLINK_THRESHOLD \<and>
              blinkCooldown s \<le> 0
           then generateNewScene (sceneRandom inp) else sceneParams s) \<and>
        resetCount (stateOf (onResults s inp)) =
          (if less_number leftEAR BLINK_THRESHOLD \<and> less_number rightEAR BLINK_THRESHOLD \<and>
              blinkCooldown s \<le> 0
           then Suc (resetCount s) else resetCount s)"
    by blast
  from u [rule_format, OF pre, of ?s]
  have c: "\<exists>s'. onResults ?s oneEyeInput = Completed s'"
    and h: "history (stateOf (onResults ?s oneEyeInput)) = history ?s"
    and g: "targetHeadPos (stateOf (onResults ?s oneEyeInput)) =
              \<lparr>px = fsub 1 (px \<lparr>px = 1 / 2, py = 1 / 2\<rparr>), py = py \<lparr>px = 1 / 2, py = 1 / 2\<rparr>\<rparr>"
    and cd: "blinkCooldown (stateOf (onResults ?s oneEyeInput)) =
          (if less_number (Fin 0) BLINK_THRESHOLD \<and> less_number NaN BLINK_THRESHOLD \<and>
              blinkCooldown ?s \<le> 0
           then 24 else if blinkCooldown ?s > 0 then blinkCooldown ?s - 1 else blinkCooldown ?s)"
    and rf: "resetFlash (stateOf (onResults ?s oneEyeInput)) =
          decayFlash
            (if less_number (Fin 0) BLINK_THRESHOLD \<and> less_number NaN BLINK_THRESHOLD \<and>
                blinkCooldown ?s \<le> 0
             then 1 else resetFlash ?s)"
    by blast+
  from h have h': "history (stateOf (onResults ?s oneEyeInput)) = []"
    by (simp add: initialState_def)
  from cd have cd': "blinkCooldown (stateOf (onResults ?s oneEyeInput)) = 2" by simp
  from rf have "resetFlash (stateOf (onResults ?s oneEyeInput)) = decayFlash 1" by simp
  then have rf': "resetFlash (stateOf (onResults ?s oneEyeInput)) = fmul 1 (D (85 / 100))"
    by (simp only: decayFlash_1)
  have "fsub 1 (1 / 2) = 1 / 2" by (simp add: fsub_def fl_half)
  with g have g': "targetHeadPos (stateOf (onResults ?s oneEyeInput)) = \<lparr>px = 1 / 2, py = 1 / 2\<rparr>"
    by simp
  from ne bb x xc c h' cd' rf' g' show ?thesis by blast
qed

theorem extractEye_below_frame_counterexample:
  "LEFT_EYE_INDICES \<noteq> [] \<and>
   boundingBox lowFace LEFT_EYE_INDICES = \<lparr>minX = 0, minY = 3 / 2, maxX = 1, maxY = 2\<rparr> \<and>
   boundingBoxCrop lowFace LEFT_EYE_INDICES 640 480 = NoCrop \<and>
   extractEye lowFace LEFT_EYE_INDICES 640 480 = Crop 0 0 640 480 \<and>
   extractEye lowFace LEFT_EYE_INDICES 640 480 \<noteq> NoCrop"
proof -
  have "LEFT_EYE_INDICES \<noteq> []" by (simp add: LEFT_EYE_INDICES_def)
  with boundingBox_lowFace boundingBoxCrop_lowFace extractEye_lowFace show ?thesis by simp
qed


text \<open>
  C10. In a tick where one eye is cropped (and its bitmap \<open>b\<close> is created) and the
  extraction of the other eye is \<open>null\<close>, the history and the log of \<open>close()\<close> calls
  are left as they were; \<open>b\<close> is held nowhere, so no later tick closes it either
  (bitmaps created later are other objects).
\<close>

theorem one_eye_null_drops_bitmap:
  assumes "ready inp" and "faces inp = landmarks # others"
    and "(\<exists>sx sy sw sh. extractEye landmarks LEFT_EYE_INDICES (videoWidth inp) (videoHeight inp) = Crop sx sy sw sh) \<and>
           leftBitmap inp = Some b \<and>
           extractEye landmarks RIGHT_EYE_INDICES (videoWidth inp) (videoHeight inp) = NoCrop
         \<or>
         extractEye landmarks LEFT_EYE_INDICES (videoWidth inp) (videoHeight inp) = NoCrop \<and>
           (\<exists>sx sy sw sh. extractEye landmarks RIGHT_EYE_INDICES (videoWidth inp) (videoHeight inp) = Crop sx sy sw sh) \<and>
           rightBitmap inp = Some b"
    and "b \<notin> set (closeLog s)" and "b \<notin> held s"
    and "\<forall>inp' \<in> set later. b \<notin> supplied inp'"
  shows "history (stateOf (onResults s inp)) = history s \<and>
         closeLog (stateOf (onResults s inp)) = closeLog s \<and>
         b \<notin> set (closeLog (run s (inp # later)))"
proof -
  have cap: "captureEyes landmarks inp t = t" for t
    using assms(3) by (intro captureEyes_one_null) auto
  from onResults_no_capture [OF assms(1,2) cap, of s]
  have same: "history (stateOf (onResults s inp)) = history s"
    "closeLog (stateOf (onResults s inp)) = closeLog s" by simp_all
  then have h: "held (stateOf (onResults s inp)) = held s" by (simp add: held_def)
  from run_closeLog_held [of "stateOf (onResults s inp)" later] same h assms(4,5,6)
  have "b \<notin> set (closeLog (run (stateOf (onResults s inp)) later))" by auto
  with same show ?thesis by simp
qed

theorem one_eye_null_drops_bitmap_witness:
  "ready oneEyeInput \<and> faces oneEyeInput = [oneEyeFace] \<and>
   (\<exists>sx sy sw sh. extractEye oneEyeFace LEFT_EYE_INDICES 640 480 = Crop sx sy sw sh) \<and>
   leftBitmap oneEyeInput = Some 7 \<and>
   extractEye oneEyeFace RIGHT_EYE_INDICES 640 480 = NoCrop \<and>
   history (stateOf (onResults (initialState (\<lambda>n. 0)) oneEyeInput)) = [] \<and>
   closeLog (stateOf (onResults (initialState (\<lambda>n. 0)) oneEyeInput)) = [] \<and>
   7 \<notin> set (closeLog (run (initialState (\<lambda>n. 0)) [oneEyeInput, oneEyeInput\<lparr>leftBitmap := Some 8\<rparr>]))"
proof -
  have l: "\<exists>sx sy sw sh. extractEye oneEyeFace LEFT_EYE_INDICES 640 480 = Crop sx sy sw sh"
    by (rule extractEye_oneEyeFace_left)
  have r: "extractEye oneEyeFace RIGHT_EYE_INDICES 640 480 = NoCrop"
    by (rule extractEye_oneEyeFace_right)
  have "history (stateOf (onResults (initialState (\<lambda>n. 0)) oneEyeInput)) = history (initialState (\<lambda>n. 0)) \<and>
        closeLog (stateOf (onResults (initialState (\<lambda>n. 0)) oneEyeInput)) = closeLog (initialState (\<lambda>n. 0)) \<and>
        7 \<notin> set (closeLog (run (initialState (\<lambda>n. 0)) (oneEyeInput # [oneEyeInput\<lparr>leftBitmap := Some 8\<rparr>])))"
    using l r
    by (intro one_eye_null_drops_bitmap [where landmarks = oneEyeFace and others = "[]"])
       (simp_all add: oneEyeInput_def initialState_def held_def supplied_def closes_def)
  with l r show ?thesis by (simp add: oneEyeInput_def initialState_def)
qed

end
